theory Spec2Isabelle
  imports Main
begin

section \<open>The distributed index partitioner of \<^verbatim>\<open>source/base/partitioner.cc\<close>\<close>

text \<open>
  The embedding follows \<^verbatim>\<open>Utilities::MPI::Partitioner\<close> as one process sees it: the
  object is a record, every member function takes the record and returns the updated
  one, and an exception is a value of the type \<open>error\<close>. The build that is embedded has
  \<^verbatim>\<open>DEAL_II_WITH_MPI\<close> defined. \<^verbatim>\<open>Assert\<close> is compiled in only in debug builds, so each
  \<^verbatim>\<open>Assert\<close> is a branch guarded by the flag \<open>debug\<close>; \<^verbatim>\<open>AssertThrow\<close> is a branch of
  every build. What the collectives and the point-to-point calls deliver to the process
  is a record of values; the transport is taken to be reliable, so no
  \<^verbatim>\<open>AssertThrowMPI\<close> fires.
\<close>

subsection \<open>Machine integers\<close>

text \<open>
  \<^verbatim>\<open>unsigned int\<close> has 32 bits. \<^verbatim>\<open>types::global_dof_index\<close> is declared outside this
  file; it is taken with 64 bits. Values are natural numbers and every operation that
  can wrap has the wrap-around written out.
\<close>

definition u32 :: "nat \<Rightarrow> nat" where
  "u32 x = x mod 2 ^ 32"

definition dof :: "nat \<Rightarrow> nat" where
  "dof x = x mod 2 ^ 64"

definition dof_minus :: "nat \<Rightarrow> nat \<Rightarrow> nat" where
  "dof_minus a b = nat ((int a - int b) mod 2 ^ 64)"

definition unsigned_int_max :: nat where
  "unsigned_int_max = 2 ^ 32 - 1"

definition invalid_unsigned_int :: nat where
  "invalid_unsigned_int = 2 ^ 32 - 1"

definition invalid_dof_index :: nat where
  "invalid_dof_index = 2 ^ 64 - 1"

subsection \<open>Exceptions\<close>

text \<open>
  \<open>NonContiguousOwnership\<close>, \<open>IndexOverflow\<close> and \<open>InvalidLargerGhostSet\<close> are the
  \<^verbatim>\<open>ExcMessage\<close> exceptions of the source, told apart by their message; the next four
  carry the names of the source. \<open>OutOfBounds\<close> stands for an access outside a vector
  (\<^verbatim>\<open>operator[]\<close> or \<^verbatim>\<open>back()\<close>), which C++ leaves undefined.
\<close>

datatype error =
    NonContiguousOwnership
  | IndexOverflow
  | ExcDimensionMismatch
  | ExcInternalError
  | ExcIndexRange
  | ExcNotImplemented
  | InvalidLargerGhostSet
  | OutOfBounds

subsection \<open>The index set\<close>

text \<open>
  Modelled from the spec: the class \<^verbatim>\<open>IndexSet\<close> is declared and implemented outside
  this file. The spec describes it as a subset of \<open>[0, N)\<close> with the operations size,
  element count, contiguity test, nth element, membership, position within the set,
  range insertion, set difference, ascending iteration, equality and intersection. The
  record holds the size of the index space and the subset itself.
\<close>

record IndexSet =
  index_space_size :: nat
  elements :: "nat set"

definition IndexSet_empty :: IndexSet where
  "IndexSet_empty = \<lparr>index_space_size = 0, elements = {}\<rparr>"

definition n_elements :: "IndexSet \<Rightarrow> nat" where
  "n_elements s = card (elements s)"

definition is_contiguous :: "IndexSet \<Rightarrow> bool" where
  "is_contiguous s =
     (elements s = {} \<or> elements s = {Min (elements s) ..< Suc (Max (elements s))})"

definition compress :: "IndexSet \<Rightarrow> IndexSet" where
  "compress s = s"

definition fill_index_vector :: "IndexSet \<Rightarrow> nat list" where
  "fill_index_vector s = sorted_list_of_set (elements s)"

definition nth_index_in_set :: "IndexSet \<Rightarrow> nat \<Rightarrow> nat" where
  "nth_index_in_set s k = fill_index_vector s ! k"

definition set_size :: "IndexSet \<Rightarrow> nat \<Rightarrow> IndexSet" where
  "set_size s n = s\<lparr>index_space_size := n\<rparr>"

definition add_range :: "IndexSet \<Rightarrow> nat \<Rightarrow> nat \<Rightarrow> IndexSet" where
  "add_range s a b = s\<lparr>elements := elements s \<union> {a ..< b}\<rparr>"

definition subtract_set :: "IndexSet \<Rightarrow> IndexSet \<Rightarrow> IndexSet" where
  "subtract_set s t = s\<lparr>elements := elements s - elements t\<rparr>"

definition is_element :: "IndexSet \<Rightarrow> nat \<Rightarrow> bool" where
  "is_element s i = (i \<in> elements s)"

definition index_within_set :: "IndexSet \<Rightarrow> nat \<Rightarrow> nat" where
  "index_within_set s i = card {j \<in> elements s. j < i}"

definition intersect :: "IndexSet \<Rightarrow> IndexSet \<Rightarrow> IndexSet" where
  "intersect s t = s\<lparr>elements := elements s \<inter> elements t\<rparr>"

subsection \<open>The communicator\<close>

text \<open>
  Modelled from the spec: the transport is external. A communicator handle is a
  context, the ordered group of its processes, and the rank of the calling process in
  it. \<open>comm_compare\<close> answers Ident for the same context and group, Congruent for the
  same group in the same order under another context, Similar for the same members in
  another order, and Unequal otherwise.
\<close>

record MPI_Comm =
  comm_context :: nat
  comm_group :: "nat list"
  comm_rank :: nat

datatype comm_result = MPI_IDENT | MPI_CONGRUENT | MPI_SIMILAR | MPI_UNEQUAL

definition MPI_Comm_compare :: "MPI_Comm \<Rightarrow> MPI_Comm \<Rightarrow> comm_result" where
  "MPI_Comm_compare c1 c2 =
     (if comm_context c1 = comm_context c2 \<and> comm_group c1 = comm_group c2 then MPI_IDENT
      else if comm_group c1 = comm_group c2 then MPI_CONGRUENT
      else if set (comm_group c1) = set (comm_group c2) then MPI_SIMILAR
      else MPI_UNEQUAL)"

definition this_mpi_process :: "MPI_Comm \<Rightarrow> nat" where
  "this_mpi_process c = comm_rank c"

definition n_mpi_processes :: "MPI_Comm \<Rightarrow> nat" where
  "n_mpi_processes c = length (comm_group c)"

definition MPI_COMM_SELF :: MPI_Comm where
  "MPI_COMM_SELF = \<lparr>comm_context = 0, comm_group = [0], comm_rank = 0\<rparr>"

subsection \<open>The partitioner\<close>

record Partitioner =
  global_size :: nat
  locally_owned_range_data :: IndexSet
  local_range_data :: "nat \<times> nat"
  ghost_indices_data :: IndexSet
  n_ghost_indices_data :: nat
  ghost_targets_data :: "(nat \<times> nat) list"
  import_indices_data :: "(nat \<times> nat) list"
  n_import_indices_data :: nat
  import_targets_data :: "(nat \<times> nat) list"
  import_indices_chunks_by_rank_data :: "nat list"
  n_ghost_indices_in_larger_set :: nat
  ghost_indices_subset_chunks_by_rank_data :: "nat list"
  ghost_indices_subset_data :: "(nat \<times> nat) list"
  my_pid :: nat
  n_procs :: nat
  communicator :: MPI_Comm
  have_ghost_indices :: bool

text \<open>
  The members that a constructor's initialiser list leaves out are default-constructed:
  an empty index set of size 0, the pair \<open>(0, 0)\<close>, empty vectors.
\<close>

definition Partitioner_members :: "nat \<Rightarrow> MPI_Comm \<Rightarrow> Partitioner" where
  "Partitioner_members n comm =
     \<lparr>global_size = n,
      locally_owned_range_data = IndexSet_empty,
      local_range_data = (0, 0),
      ghost_indices_data = IndexSet_empty,
      n_ghost_indices_data = 0,
      ghost_targets_data = [],
      import_indices_data = [],
      n_import_indices_data = 0,
      import_targets_data = [],
      import_indices_chunks_by_rank_data = [],
      n_ghost_indices_in_larger_set = 0,
      ghost_indices_subset_chunks_by_rank_data = [],
      ghost_indices_subset_data = [],
      my_pid = 0,
      n_procs = 1,
      communicator = comm,
      have_ghost_indices = False\<rparr>"

definition Partitioner_default :: Partitioner where
  "Partitioner_default = Partitioner_members 0 MPI_COMM_SELF"

definition Partitioner_size :: "nat \<Rightarrow> Partitioner" where
  "Partitioner_size sz =
     (Partitioner_members sz MPI_COMM_SELF)
       \<lparr>locally_owned_range_data :=
          compress (add_range \<lparr>index_space_size = sz, elements = {}\<rparr> 0 sz),
        local_range_data := (0, sz),
        ghost_indices_data := set_size IndexSet_empty sz\<rparr>"

definition local_size :: "Partitioner \<Rightarrow> nat" where
  "local_size p = u32 (dof_minus (snd (local_range_data p)) (fst (local_range_data p)))"

definition n_ghost_indices :: "Partitioner \<Rightarrow> nat" where
  "n_ghost_indices p = n_ghost_indices_data p"

subsection \<open>set\_owned\_indices\<close>

text \<open>
  \<open>job_supports_mpi\<close> is the answer of \<^verbatim>\<open>Utilities::MPI::job_supports_mpi()\<close>. The
  overflow test reads \<open>local_range_data\<close>, which the branch above it writes only for a
  non-empty set.
\<close>

definition set_owned_indices ::
  "bool \<Rightarrow> bool \<Rightarrow> Partitioner \<Rightarrow> IndexSet \<Rightarrow> error + Partitioner" where
  "set_owned_indices debug job_supports_mpi p locally_owned_indices =
     (let p1 = (if job_supports_mpi
                then p\<lparr>my_pid := this_mpi_process (communicator p),
                       n_procs := n_mpi_processes (communicator p)\<rparr>
                else p\<lparr>my_pid := 0, n_procs := 1\<rparr>)
      in if debug \<and> \<not> is_contiguous locally_owned_indices then Inl NonContiguousOwnership
      else
        let owned = compress locally_owned_indices;
            p2 = (if n_elements owned > 0
                  then p1\<lparr>local_range_data :=
                           (nth_index_in_set owned 0,
                            dof (nth_index_in_set owned 0 + n_elements owned))\<rparr>
                  else p1);
            lr = local_range_data p2
        in if \<not> dof_minus (snd lr) (fst lr) < unsigned_int_max then Inl IndexOverflow
        else Inr (p2\<lparr>locally_owned_range_data :=
                        compress (add_range
                          (set_size (locally_owned_range_data p2)
                             (index_space_size owned))
                          (fst lr) (snd lr)),
                      ghost_indices_data :=
                        set_size (ghost_indices_data p2) (index_space_size owned)\<rparr>))"

subsection \<open>What the communicator delivers\<close>

text \<open>
  One call of \<^verbatim>\<open>set_ghost_indices\<close> reads from the communicator: the ghost counts
  of the other ranks (summed with its own by the reduction), the value that rank 0
  broadcasts into \<^verbatim>\<open>first_index[0]\<close> (on rank 0 the buffer keeps the process's own
  value), the all-gathered \<^verbatim>\<open>local_range_data.second\<close> of every rank (the entry of
  the process itself is its own value), the owners that
  \<^verbatim>\<open>compute_index_owner\<close> returns for the ghosts in ascending order, the receive buffer
  of the all-to-all, and the indices that the posted receives put into
  \<^verbatim>\<open>expanded_import_indices\<close>. What the process itself sends does not come back into
  its own plan and is left out.
\<close>

record comm_results =
  n_ghost_on_other_ranks :: nat
  bcast_first_index :: nat
  allgather_second :: "nat list"
  index_owner :: "nat list"
  receive_buffer :: "int list"
  expanded_import_indices :: "nat list"

definition and_then :: "'e + 'a \<Rightarrow> ('a \<Rightarrow> 'e + 'b) \<Rightarrow> 'e + 'b" where
  "and_then r f = (case r of Inl e \<Rightarrow> Inl e | Inr x \<Rightarrow> f x)"

subsection \<open>set\_ghost\_indices: normalisation and early exit\<close>

definition tight_ghost_set :: "Partitioner \<Rightarrow> IndexSet \<Rightarrow> IndexSet" where
  "tight_ghost_set p ghost_indices_in =
     (let g0 = ghost_indices_in;
          g1 = (if index_space_size g0 \<noteq> index_space_size (locally_owned_range_data p)
                then set_size g0 (index_space_size (locally_owned_range_data p)) else g0)
      in compress (subtract_set g1 (locally_owned_range_data p)))"

definition normalise_ghosts ::
  "bool \<Rightarrow> comm_results \<Rightarrow> Partitioner \<Rightarrow> IndexSet \<Rightarrow> error + Partitioner" where
  "normalise_ghosts debug env p ghost_indices_in =
     (if debug \<and> \<not> (n_elements ghost_indices_in = 0 \<or>
           index_space_size ghost_indices_in = index_space_size (locally_owned_range_data p))
      then Inl ExcDimensionMismatch
      else
        let g = tight_ghost_set p ghost_indices_in
        in if \<not> n_elements g < unsigned_int_max then Inl IndexOverflow
        else Inr (p\<lparr>ghost_indices_data := g,
                      n_ghost_indices_data := u32 (n_elements g),
                      have_ghost_indices :=
                        (u32 (u32 (n_elements g) + n_ghost_on_other_ranks env) > 0)\<rparr>))"

definition early_exit :: "bool \<Rightarrow> Partitioner \<Rightarrow> error + Partitioner" where
  "early_exit debug p =
     (if debug \<and> n_elements (ghost_indices_data p) \<noteq> 0 then Inl ExcInternalError
      else if debug \<and> n_import_indices_data p \<noteq> 0 then Inl ExcInternalError
      else if debug \<and> n_ghost_indices_data p \<noteq> 0 then Inl ExcInternalError
      else Inr p)"

subsection \<open>Endpoint exchange and the fix-up of empty processes\<close>

text \<open>
  \<^verbatim>\<open>first_index\<close> has \<open>n_procs + 1\<close> entries. Entry 0 is the broadcast value, the
  all-gather writes the end of rank \<open>r\<close> into entry \<open>r + 1\<close>, and entry \<open>n_procs\<close> is then
  overwritten with \<open>global_size\<close>.
\<close>

definition exchange_endpoints :: "nat \<Rightarrow> nat \<Rightarrow> nat \<Rightarrow> nat list \<Rightarrow> nat list" where
  "exchange_endpoints nprocs gsize root_first gathered =
     map (\<lambda>i. if i = nprocs then gsize
              else if i = 0 then root_first
              else if i - 1 < length gathered then gathered ! (i - 1)
              else 0)
       [0 ..< Suc nprocs]"

definition forward_fill :: "nat \<Rightarrow> nat list \<Rightarrow> nat list" where
  "forward_fill nprocs first_index =
     fold (\<lambda>i fi. if fi ! i = 0 then fi[i := fi ! (i - 1)] else fi) [1 ..< nprocs] first_index"

definition fix_local_range ::
  "bool \<Rightarrow> nat list \<Rightarrow> nat \<Rightarrow> nat \<times> nat \<Rightarrow> error + (nat \<times> nat)" where
  "fix_local_range debug first_index pid lr =
     (if \<not> pid < length first_index then Inl OutOfBounds
      else if first_index ! pid \<noteq> fst lr
      then (if debug \<and> fst lr \<noteq> snd lr then Inl ExcInternalError
            else Inr (first_index ! pid, first_index ! pid))
      else Inr lr)"

definition local_range_fixup ::
  "bool \<Rightarrow> nat \<Rightarrow> nat \<Rightarrow> nat \<Rightarrow> nat list \<Rightarrow> nat \<times> nat \<Rightarrow> error + (nat list \<times> (nat \<times> nat))" where
  "local_range_fixup debug gsize nprocs pid first_index lr =
     (if gsize > 0
      then (let fi = forward_fill nprocs first_index
            in and_then (fix_local_range debug fi pid lr) (\<lambda>lr'. Inr (fi, lr')))
      else Inr (first_index, lr))"

subsection \<open>Ghost targets and import targets\<close>

definition extend_back :: "(nat \<times> nat) list \<Rightarrow> error + (nat \<times> nat) list" where
  "extend_back rs =
     (if rs = [] then Inl OutOfBounds
      else Inr (butlast rs @ [(fst (last rs), u32 (snd (last rs) + 1))]))"

fun group_owners ::
  "bool \<Rightarrow> nat list \<Rightarrow> (nat \<times> nat) list \<Rightarrow> error + (nat \<times> nat) list" where
  "group_owners debug [] targets = Inr targets"
| "group_owners debug (i # owners) targets =
     (if targets = [] then Inl OutOfBounds
      else if debug \<and> \<not> fst (last targets) \<le> i then Inl ExcInternalError
      else if i = fst (last targets)
      then (case extend_back targets of
              Inl e \<Rightarrow> Inl e
            | Inr targets' \<Rightarrow> group_owners debug owners targets')
      else group_owners debug owners (targets @ [(i, 1)]))"

definition compute_ghost_targets ::
  "bool \<Rightarrow> nat list \<Rightarrow> error + (nat \<times> nat) list" where
  "compute_ghost_targets debug owners =
     (if length owners > 0 then group_owners debug owners [(owners ! 0, 0)] else Inr [])"

definition receive_count :: "int list \<Rightarrow> nat \<Rightarrow> int" where
  "receive_count rb i = (if i < length rb then rb ! i else 0)"

definition collect_import_targets :: "nat \<Rightarrow> int list \<Rightarrow> nat \<times> (nat \<times> nat) list" where
  "collect_import_targets nprocs rb =
     fold (\<lambda>i (n, temp).
             if receive_count rb i > 0
             then (u32 (n + nat (receive_count rb i)), temp @ [(i, nat (receive_count rb i))])
             else (n, temp))
       [0 ..< nprocs] (0, [])"

definition current_index_start :: "(nat \<times> nat) list \<Rightarrow> nat" where
  "current_index_start targets = fold (\<lambda>t s. u32 (s + snd t)) targets 0"

subsection \<open>Local compression of the import indices\<close>

fun compress_chunk ::
  "bool \<Rightarrow> nat \<times> nat \<Rightarrow> nat list \<Rightarrow> nat \<Rightarrow> nat list \<Rightarrow> nat \<Rightarrow> (nat \<times> nat) list
     \<Rightarrow> error + (nat \<times> nat) list" where
  "compress_chunk debug lr expanded shift [] last_index compressed = Inr compressed"
| "compress_chunk debug lr expanded shift (ii # iis) last_index compressed =
     (let i = u32 (shift + ii)
      in if \<not> i < length expanded then Inl OutOfBounds
      else if debug \<and> \<not> (fst lr \<le> expanded ! i \<and> expanded ! i < snd lr) then Inl ExcIndexRange
      else
        let new_index = dof_minus (expanded ! i) (fst lr)
        in if debug \<and> \<not> new_index < invalid_unsigned_int then Inl ExcNotImplemented
        else if new_index = dof (last_index + 1)
        then (case extend_back compressed of
                Inl e \<Rightarrow> Inl e
              | Inr compressed' \<Rightarrow>
                  compress_chunk debug lr expanded shift iis new_index compressed')
        else compress_chunk debug lr expanded shift iis new_index
               (compressed @ [(u32 new_index, u32 (dof (new_index + 1)))]))"

fun compress_import_indices ::
  "bool \<Rightarrow> nat \<times> nat \<Rightarrow> nat list \<Rightarrow> (nat \<times> nat) list \<Rightarrow> nat
     \<Rightarrow> nat \<times> (nat \<times> nat) list \<times> nat list
     \<Rightarrow> error + (nat \<times> (nat \<times> nat) list \<times> nat list)" where
  "compress_import_indices debug lr expanded [] p st = Inr st"
| "compress_import_indices debug lr expanded (target # targets) p (shift, compressed, chunks) =
     (case compress_chunk debug lr expanded shift [0 ..< snd target]
             (invalid_dof_index - 1) compressed of
        Inl e \<Rightarrow> Inl e
      | Inr compressed' \<Rightarrow>
          compress_import_indices debug lr expanded targets (Suc p)
            (u32 (shift + snd target), compressed',
             chunks[Suc p := u32 (length compressed')]))"

definition resize :: "'a list \<Rightarrow> nat \<Rightarrow> 'a \<Rightarrow> 'a list" where
  "resize xs n d = take n xs @ replicate (n - length xs) d"

definition ranges_in_local_window :: "nat \<Rightarrow> (nat \<times> nat) list \<Rightarrow> bool" where
  "ranges_in_local_window n_local_dofs ranges =
     list_all (\<lambda>r. fst r < n_local_dofs \<and> nat ((int (snd r) - 1) mod 2 ^ 32) < n_local_dofs)
       ranges"

subsection \<open>The communication pattern\<close>

text \<open>
  The part of \<^verbatim>\<open>set_ghost_indices\<close> between the early exit and the larger ghost set, in
  the order of the source: endpoint exchange and fix-up, ghost targets, import targets,
  the index exchange with its two dimension checks, local compression.
\<close>

definition exchange_and_fixup ::
  "bool \<Rightarrow> comm_results \<Rightarrow> Partitioner \<Rightarrow> error + Partitioner" where
  "exchange_and_fixup debug env p =
     and_then
       (local_range_fixup debug (global_size p) (n_procs p) (my_pid p)
          (exchange_endpoints (n_procs p) (global_size p)
             (if my_pid p = 0 then fst (local_range_data p) else bcast_first_index env)
             ((allgather_second env)[my_pid p := snd (local_range_data p)]))
          (local_range_data p))
       (\<lambda>r. Inr (p\<lparr>local_range_data := snd r\<rparr>))"

definition ghost_target_grouping ::
  "bool \<Rightarrow> comm_results \<Rightarrow> Partitioner \<Rightarrow> error + Partitioner" where
  "ghost_target_grouping debug env p =
     and_then (compute_ghost_targets debug (index_owner env))
       (\<lambda>targets. Inr (p\<lparr>ghost_targets_data := targets\<rparr>))"

definition import_target_discovery :: "comm_results \<Rightarrow> Partitioner \<Rightarrow> Partitioner" where
  "import_target_discovery env p =
     p\<lparr>n_import_indices_data := fst (collect_import_targets (n_procs p) (receive_buffer env)),
       import_targets_data := snd (collect_import_targets (n_procs p) (receive_buffer env))\<rparr>"

definition import_index_exchange :: "bool \<Rightarrow> Partitioner \<Rightarrow> error + Partitioner" where
  "import_index_exchange debug p =
     (if debug \<and> current_index_start (import_targets_data p) \<noteq> n_import_indices_data p
      then Inl ExcDimensionMismatch
      else if debug \<and> current_index_start (ghost_targets_data p) \<noteq> n_ghost_indices_data p
      then Inl ExcDimensionMismatch
      else Inr p)"

definition local_compression ::
  "bool \<Rightarrow> comm_results \<Rightarrow> Partitioner \<Rightarrow> error + Partitioner" where
  "local_compression debug env p =
     and_then
       (compress_import_indices debug (local_range_data p) (expanded_import_indices env)
          (import_targets_data p) 0
          (0, [],
           (resize (import_indices_chunks_by_rank_data p)
              (length (import_targets_data p) + 1) 0)[0 := 0]))
       (\<lambda>r. if debug \<and>
                \<not> ranges_in_local_window
                    (dof_minus (snd (local_range_data p)) (fst (local_range_data p)))
                    (fst (snd r))
             then Inl ExcIndexRange
             else Inr (p\<lparr>import_indices_chunks_by_rank_data := snd (snd r),
                           import_indices_data := fst (snd r)\<rparr>))"

definition communication_pattern ::
  "bool \<Rightarrow> comm_results \<Rightarrow> Partitioner \<Rightarrow> error + Partitioner" where
  "communication_pattern debug env p =
     and_then (exchange_and_fixup debug env p) (\<lambda>p1.
     and_then (ghost_target_grouping debug env p1) (\<lambda>p2.
     and_then (import_index_exchange debug (import_target_discovery env p2))
       (local_compression debug env)))"

subsection \<open>The mapping into a larger ghost set\<close>

fun expand_numbering :: "bool \<Rightarrow> IndexSet \<Rightarrow> nat list \<Rightarrow> error + nat list" where
  "expand_numbering debug larger [] = Inr []"
| "expand_numbering debug larger (index # rest) =
     (if debug \<and> \<not> is_element larger index then Inl InvalidLargerGhostSet
      else if debug \<and> \<not> index_within_set larger index < unsigned_int_max then Inl IndexOverflow
      else (case expand_numbering debug larger rest of
              Inl e \<Rightarrow> Inl e
            | Inr numbering \<Rightarrow> Inr (u32 (index_within_set larger index) # numbering)))"

fun subset_chunk ::
  "nat list \<Rightarrow> nat \<Rightarrow> nat list \<Rightarrow> nat \<Rightarrow> (nat \<times> nat) list \<Rightarrow> error + (nat \<times> nat) list" where
  "subset_chunk numbering shift [] last_index ranges = Inr ranges"
| "subset_chunk numbering shift (ii # iis) last_index ranges =
     (let i = u32 (shift + ii)
      in if \<not> i < length numbering then Inl OutOfBounds
      else if numbering ! i = u32 (last_index + 1)
      then (case extend_back ranges of
              Inl e \<Rightarrow> Inl e
            | Inr ranges' \<Rightarrow> subset_chunk numbering shift iis (numbering ! i) ranges')
      else subset_chunk numbering shift iis (numbering ! i)
             (ranges @ [(numbering ! i, u32 (numbering ! i + 1))]))"

fun subset_chunks ::
  "nat list \<Rightarrow> (nat \<times> nat) list \<Rightarrow> nat \<Rightarrow> nat \<times> (nat \<times> nat) list \<times> nat list
     \<Rightarrow> error + (nat \<times> (nat \<times> nat) list \<times> nat list)" where
  "subset_chunks numbering [] p st = Inr st"
| "subset_chunks numbering (target # targets) p (shift, ranges, chunks) =
     (case subset_chunk numbering shift [0 ..< snd target] (invalid_unsigned_int - 1) ranges of
        Inl e \<Rightarrow> Inl e
      | Inr ranges' \<Rightarrow>
          subset_chunks numbering targets (Suc p)
            (u32 (shift + snd target), ranges', chunks[Suc p := u32 (length ranges')]))"

definition larger_ghost_mapping ::
  "bool \<Rightarrow> Partitioner \<Rightarrow> IndexSet \<Rightarrow> error + Partitioner" where
  "larger_ghost_mapping debug p larger_ghost_index_set =
     (if index_space_size larger_ghost_index_set = 0
      then Inr (p\<lparr>ghost_indices_subset_chunks_by_rank_data := [],
                    ghost_indices_subset_data :=
                      ghost_indices_subset_data p @
                        [(local_size p, u32 (local_size p + n_ghost_indices p))],
                    n_ghost_indices_in_larger_set := n_ghost_indices_data p\<rparr>)
      else if debug \<and> index_space_size larger_ghost_index_set \<noteq>
                index_space_size (ghost_indices_data p)
      then Inl ExcDimensionMismatch
      else if debug \<and>
                n_elements (intersect larger_ghost_index_set (locally_owned_range_data p)) \<noteq> 0
      then Inl InvalidLargerGhostSet
      else if debug \<and>
                intersect larger_ghost_index_set (ghost_indices_data p) \<noteq> ghost_indices_data p
      then Inl InvalidLargerGhostSet
      else
        and_then
          (expand_numbering debug larger_ghost_index_set
             (fill_index_vector (ghost_indices_data p)))
          (\<lambda>expanded_numbering.
        and_then
          (subset_chunks expanded_numbering (ghost_targets_data p) 0
             (0, [],
              (resize (ghost_indices_subset_chunks_by_rank_data p)
                 (length (ghost_targets_data p) + 1) 0)[0 := 0]))
          (\<lambda>r.
        Inr (p\<lparr>n_ghost_indices_in_larger_set := u32 (n_elements larger_ghost_index_set),
                ghost_indices_subset_chunks_by_rank_data := snd (snd r),
                ghost_indices_subset_data := fst (snd r)\<rparr>))))"

subsection \<open>set\_ghost\_indices, the constructors and reinit\<close>

definition set_ghost_indices ::
  "bool \<Rightarrow> comm_results \<Rightarrow> Partitioner \<Rightarrow> IndexSet \<Rightarrow> IndexSet \<Rightarrow> error + Partitioner" where
  "set_ghost_indices debug env p ghost_indices_in larger_ghost_index_set =
     and_then (normalise_ghosts debug env p ghost_indices_in)
       (\<lambda>p1. if n_procs p1 < 2 then early_exit debug p1
             else and_then (communication_pattern debug env p1)
                    (\<lambda>p2. larger_ghost_mapping debug p2 larger_ghost_index_set))"

definition Partitioner_owned ::
  "bool \<Rightarrow> bool \<Rightarrow> IndexSet \<Rightarrow> MPI_Comm \<Rightarrow> error + Partitioner" where
  "Partitioner_owned debug job_supports_mpi locally_owned_indices communicator_in =
     set_owned_indices debug job_supports_mpi
       (Partitioner_members (index_space_size locally_owned_indices) communicator_in)
       locally_owned_indices"

definition Partitioner_owned_ghost ::
  "bool \<Rightarrow> bool \<Rightarrow> comm_results \<Rightarrow> IndexSet \<Rightarrow> IndexSet \<Rightarrow> MPI_Comm \<Rightarrow> error + Partitioner" where
  "Partitioner_owned_ghost debug job_supports_mpi env locally_owned_indices ghost_indices_in
       communicator_in =
     and_then
       (set_owned_indices debug job_supports_mpi
          (Partitioner_members (index_space_size locally_owned_indices) communicator_in)
          locally_owned_indices)
       (\<lambda>p. set_ghost_indices debug env p ghost_indices_in IndexSet_empty)"

definition reinit ::
  "bool \<Rightarrow> bool \<Rightarrow> comm_results \<Rightarrow> Partitioner \<Rightarrow> IndexSet \<Rightarrow> IndexSet \<Rightarrow> MPI_Comm
     \<Rightarrow> error + Partitioner" where
  "reinit debug job_supports_mpi env p vector_space_vector_index_set
       read_write_vector_index_set communicator_in =
     and_then
       (set_owned_indices debug job_supports_mpi
          (p\<lparr>have_ghost_indices := False, communicator := communicator_in\<rparr>)
          vector_space_vector_index_set)
       (\<lambda>p'. set_ghost_indices debug env p' read_write_vector_index_set IndexSet_empty)"

subsection \<open>is\_compatible\<close>

text \<open>
  The first test of \<^verbatim>\<open>is_compatible\<close> compares addresses, so the two partitioners are
  read from a store by address.
\<close>

type_synonym address = nat

definition is_compatible ::
  "bool \<Rightarrow> (address \<Rightarrow> Partitioner) \<Rightarrow> address \<Rightarrow> address \<Rightarrow> bool" where
  "is_compatible job_supports_mpi store this part =
     (if part = this then True
      else if job_supports_mpi \<and>
              \<not> (MPI_Comm_compare (communicator (store part)) (communicator (store this))
                     = MPI_IDENT \<or>
                 MPI_Comm_compare (communicator (store part)) (communicator (store this))
                     = MPI_CONGRUENT)
      then False
      else (global_size (store this) = global_size (store part) \<and>
            local_range_data (store this) = local_range_data (store part) \<and>
            ghost_indices_data (store this) = ghost_indices_data (store part)))"

definition is_globally_compatible ::
  "bool \<Rightarrow> int \<Rightarrow> (address \<Rightarrow> Partitioner) \<Rightarrow> address \<Rightarrow> address \<Rightarrow> bool" where
  "is_globally_compatible job_supports_mpi min_on_other_ranks store this part =
     (min (if is_compatible job_supports_mpi store this part then 1 else 0)
          min_on_other_ranks = 1)"

subsection \<open>The endpoint exchange over all ranks\<close>

text \<open>
  The broadcast delivers \<open>local_range_data.first\<close> of rank 0 and the all-gather delivers
  \<open>local_range_data.second\<close> of every rank. \<open>fixup_on_rank\<close> is the exchange and the
  fix-up as rank \<open>r\<close> runs them when the ranks hold the partitioners \<open>ps\<close>; it returns
  \<open>first_index\<close> and the local range after the block.
\<close>

definition fixup_on_rank ::
  "bool \<Rightarrow> Partitioner list \<Rightarrow> nat \<Rightarrow> error + (nat list \<times> (nat \<times> nat))" where
  "fixup_on_rank debug ps r =
     local_range_fixup debug (global_size (ps ! r)) (n_procs (ps ! r)) (my_pid (ps ! r))
       (exchange_endpoints (n_procs (ps ! r)) (global_size (ps ! r))
          (fst (local_range_data (ps ! 0)))
          (map (\<lambda>q. snd (local_range_data q)) ps))
       (local_range_data (ps ! r))"

text \<open>
  The local ranges \<open>rs\<close> of the ranks tile \<open>[0, n)\<close> with the boundaries \<open>bs\<close>: a
  non-empty rank \<open>r\<close> holds \<open>(bs ! r, bs ! (r + 1))\<close>; an empty rank holds \<open>(0, 0)\<close>, as
  the constructors leave it, or its own boundary twice.
\<close>

definition tiles_with :: "nat list \<Rightarrow> (nat \<times> nat) list \<Rightarrow> nat \<Rightarrow> bool" where
  "tiles_with bs rs n =
     (length bs = Suc (length rs) \<and> bs ! 0 = 0 \<and> bs ! length rs = n \<and>
      list_all (\<lambda>r. if fst (rs ! r) < snd (rs ! r)
                    then fst (rs ! r) = bs ! r \<and> snd (rs ! r) = bs ! Suc r
                    else fst (rs ! r) = snd (rs ! r) \<and> bs ! Suc r = bs ! r \<and>
                         (fst (rs ! r) = 0 \<or> fst (rs ! r) = bs ! r))
        [0 ..< length rs])"

subsection \<open>Reading the import plan\<close>

text \<open>
  The receive for the \<open>c\<close>-th import target writes \<open>snd (targets ! c)\<close> indices into
  \<open>expanded_import_indices\<close>, starting where the receives before it ended. Chunk \<open>c\<close> of
  \<open>import_indices_data\<close> is the part between entries \<open>c\<close> and \<open>c + 1\<close> of the chunk table.
  A list of ranges is decoded by listing the indices of every range in turn.
\<close>

definition received_chunk :: "nat list \<Rightarrow> (nat \<times> nat) list \<Rightarrow> nat \<Rightarrow> nat list" where
  "received_chunk expanded targets c =
     take (snd (targets ! c)) (drop (sum_list (map snd (take c targets))) expanded)"

definition chunk_ranges :: "(nat \<times> nat) list \<Rightarrow> nat list \<Rightarrow> nat \<Rightarrow> (nat \<times> nat) list" where
  "chunk_ranges ranges chunks c = take (chunks ! Suc c - chunks ! c) (drop (chunks ! c) ranges)"

definition decode_ranges :: "(nat \<times> nat) list \<Rightarrow> nat list" where
  "decode_ranges ranges = concat (map (\<lambda>r. [fst r ..< snd r]) ranges)"

definition separated_ranges :: "(nat \<times> nat) list \<Rightarrow> bool" where
  "separated_ranges ranges =
     (list_all (\<lambda>r. fst r < snd r) ranges \<and> sorted_wrt (\<lambda>r s. snd r < fst s) ranges)"

section \<open>Properties\<close>

subsection \<open>Auxiliary facts\<close>

lemma Min_range: "a < b \<Longrightarrow> Min {a ..< b :: nat} = a"
  by (rule Min_eqI) auto
lemma Max_range: "a < b \<Longrightarrow> Max {a ..< b :: nat} = b - 1"
  by (rule Max_eqI) auto

lemma and_then_Inl [simp]: "and_then (Inl e) f = Inl e"
  by (simp add: and_then_def)
lemma and_then_Inr [simp]: "and_then (Inr x) f = f x"
  by (simp add: and_then_def)
lemma and_then_eq_Inr: "(and_then r f = Inr y) = (\<exists>x. r = Inr x \<and> f x = Inr y)"
  by (cases r) simp_all

lemma u32_id: "x < 2 ^ 32 \<Longrightarrow> u32 x = x"
  by (simp add: u32_def)

lemma dof_id: "x < 2 ^ 64 \<Longrightarrow> dof x = x"
  by (simp add: dof_def)

lemma dof_minus_id: "b \<le> a \<Longrightarrow> a - b < 2 ^ 64 \<Longrightarrow> dof_minus a b = a - b"
proof -
  assume a: "b \<le> a" "a - b < 2 ^ 64"
  from a(1) have e: "int a - int b = int (a - b)" by simp
  from a(2) have "int (a - b) < int (2 ^ 64)" by (simp only: of_nat_less_iff)
  then have l: "int (a - b) < 2 ^ 64" by simp
  have "int (a - b) mod 2 ^ 64 = int (a - b)"
    by (rule mod_pos_pos_trivial [OF _ l]) simp
  then show ?thesis unfolding dof_minus_def e by simp
qed

lemmas index_set_defs = n_elements_def nth_index_in_set_def fill_index_vector_def compress_def
  set_size_def add_range_def subtract_set_def is_element_def intersect_def IndexSet_empty_def
lemmas integer_defs = u32_def dof_def dof_minus_def unsigned_int_max_def invalid_unsigned_int_def invalid_dof_index_def

lemma elements_tight_ghost_set:
  "elements (tight_ghost_set p g) = elements g - elements (locally_owned_range_data p)"
  by (simp add: tight_ghost_set_def Let_def index_set_defs)

lemma normalise_ghosts_Inr:
  assumes "normalise_ghosts debug env p g = Inr p1"
  shows "ghost_indices_data p1 = tight_ghost_set p g \<and>
         n_ghost_indices_data p1 = n_elements (tight_ghost_set p g) \<and>
         n_elements (tight_ghost_set p g) < 2 ^ 32 - 1 \<and>
         global_size p1 = global_size p \<and>
         locally_owned_range_data p1 = locally_owned_range_data p \<and>
         local_range_data p1 = local_range_data p \<and>
         ghost_targets_data p1 = ghost_targets_data p \<and>
         import_indices_data p1 = import_indices_data p \<and>
         n_import_indices_data p1 = n_import_indices_data p \<and>
         import_targets_data p1 = import_targets_data p \<and>
         import_indices_chunks_by_rank_data p1 = import_indices_chunks_by_rank_data p \<and>
         n_ghost_indices_in_larger_set p1 = n_ghost_indices_in_larger_set p \<and>
         ghost_indices_subset_chunks_by_rank_data p1 =
           ghost_indices_subset_chunks_by_rank_data p \<and>
         ghost_indices_subset_data p1 = ghost_indices_subset_data p \<and>
         my_pid p1 = my_pid p \<and> n_procs p1 = n_procs p \<and>
         communicator p1 = communicator p"
  using assms
  by (auto simp: normalise_ghosts_def Let_def integer_defs split: if_splits)

lemma early_exit_Inr: "early_exit debug p = Inr p' \<Longrightarrow> p' = p"
  by (auto simp: early_exit_def split: if_splits)

lemma exchange_and_fixup_Inr:
  assumes "exchange_and_fixup debug env p = Inr p1"
  shows "\<exists>fi lr. local_range_fixup debug (global_size p) (n_procs p) (my_pid p)
          (exchange_endpoints (n_procs p) (global_size p)
             (if my_pid p = 0 then fst (local_range_data p) else bcast_first_index env)
             ((allgather_second env)[my_pid p := snd (local_range_data p)]))
          (local_range_data p) = Inr (fi, lr) \<and>
         p1 = p\<lparr>local_range_data := lr\<rparr>"
  using assms unfolding exchange_and_fixup_def
  by (auto simp: and_then_eq_Inr)

lemma ghost_target_grouping_Inr:
  assumes "ghost_target_grouping debug env p = Inr p2"
  shows "\<exists>gt. compute_ghost_targets debug (index_owner env) = Inr gt \<and>
         p2 = p\<lparr>ghost_targets_data := gt\<rparr>"
  using assms unfolding ghost_target_grouping_def
  by (auto simp: and_then_eq_Inr)

lemma import_index_exchange_Inr:
  assumes "import_index_exchange debug p = Inr p'"
  shows "p' = p \<and> (debug \<longrightarrow> current_index_start (ghost_targets_data p) = n_ghost_indices_data p)"
  using assms unfolding import_index_exchange_def
  by (auto split: if_splits)

lemma local_compression_Inr:
  assumes "local_compression debug env p = Inr p'"
  shows "\<exists>sh comp ch. compress_import_indices debug (local_range_data p) (expanded_import_indices env)
          (import_targets_data p) 0
          (0, [],
           (resize (import_indices_chunks_by_rank_data p)
              (length (import_targets_data p) + 1) 0)[0 := 0])
          = Inr (sh, comp, ch) \<and>
         p' = p\<lparr>import_indices_chunks_by_rank_data := ch, import_indices_data := comp\<rparr>"
  using assms unfolding local_compression_def
  by (auto simp: and_then_eq_Inr split: if_splits)

lemma communication_pattern_Inr:
  assumes "communication_pattern debug env p = Inr p'"
  shows "\<exists>p1 p2. exchange_and_fixup debug env p = Inr p1 \<and>
           ghost_target_grouping debug env p1 = Inr p2 \<and>
           import_index_exchange debug (import_target_discovery env p2)
             = Inr (import_target_discovery env p2) \<and>
           local_compression debug env (import_target_discovery env p2) = Inr p'"
proof -
  from assms obtain p1 p2 p3 where
    1: "exchange_and_fixup debug env p = Inr p1" and
    2: "ghost_target_grouping debug env p1 = Inr p2" and
    3: "import_index_exchange debug (import_target_discovery env p2) = Inr p3" and
    4: "local_compression debug env p3 = Inr p'"
    unfolding communication_pattern_def and_then_eq_Inr by blast
  from 3 have "p3 = import_target_discovery env p2"
    by (simp add: import_index_exchange_Inr)
  with 1 2 3 4 show ?thesis by blast
qed

lemma communication_pattern_frame:
  assumes "communication_pattern debug env p = Inr p'"
  shows "global_size p' = global_size p \<and>
         locally_owned_range_data p' = locally_owned_range_data p \<and>
         ghost_indices_data p' = ghost_indices_data p \<and>
         n_ghost_indices_data p' = n_ghost_indices_data p \<and>
         n_ghost_indices_in_larger_set p' = n_ghost_indices_in_larger_set p \<and>
         ghost_indices_subset_chunks_by_rank_data p' = ghost_indices_subset_chunks_by_rank_data p \<and>
         ghost_indices_subset_data p' = ghost_indices_subset_data p \<and>
         my_pid p' = my_pid p \<and> n_procs p' = n_procs p \<and>
         communicator p' = communicator p \<and> have_ghost_indices p' = have_ghost_indices p"
proof -
  from communication_pattern_Inr [OF assms] obtain p1 p2 where
    1: "exchange_and_fixup debug env p = Inr p1" and
    2: "ghost_target_grouping debug env p1 = Inr p2" and
    4: "local_compression debug env (import_target_discovery env p2) = Inr p'"
    by blast
  from exchange_and_fixup_Inr [OF 1] obtain lr where a: "p1 = p\<lparr>local_range_data := lr\<rparr>"
    by blast
  from ghost_target_grouping_Inr [OF 2] obtain gt where b: "p2 = p1\<lparr>ghost_targets_data := gt\<rparr>"
    by blast
  from local_compression_Inr [OF 4] obtain comp ch where
    c: "p' = (import_target_discovery env p2)
                \<lparr>import_indices_chunks_by_rank_data := ch, import_indices_data := comp\<rparr>"
    by blast
  show ?thesis by (simp add: a b c import_target_discovery_def)
qed

lemma larger_ghost_mapping_frame:
  assumes "larger_ghost_mapping debug p larger = Inr p'"
  shows "global_size p' = global_size p \<and>
         locally_owned_range_data p' = locally_owned_range_data p \<and>
         local_range_data p' = local_range_data p \<and>
         ghost_indices_data p' = ghost_indices_data p \<and>
         n_ghost_indices_data p' = n_ghost_indices_data p \<and>
         ghost_targets_data p' = ghost_targets_data p \<and>
         import_indices_data p' = import_indices_data p \<and>
         n_import_indices_data p' = n_import_indices_data p \<and>
         import_targets_data p' = import_targets_data p \<and>
         import_indices_chunks_by_rank_data p' = import_indices_chunks_by_rank_data p \<and>
         my_pid p' = my_pid p \<and> n_procs p' = n_procs p \<and>
         communicator p' = communicator p \<and> have_ghost_indices p' = have_ghost_indices p"
  using assms unfolding larger_ghost_mapping_def
  by (auto simp: and_then_eq_Inr split: if_splits)

lemma set_ghost_indices_Inr:
  assumes "set_ghost_indices debug env p g larger = Inr p'"
  shows "\<exists>p1. normalise_ghosts debug env p g = Inr p1 \<and>
           (if n_procs p < 2 then p' = p1
            else (\<exists>p2. communication_pattern debug env p1 = Inr p2 \<and>
                       larger_ghost_mapping debug p2 larger = Inr p'))"
proof -
  from assms obtain p1 where
    1: "normalise_ghosts debug env p g = Inr p1" and
    2: "(if n_procs p1 < 2 then early_exit debug p1
         else and_then (communication_pattern debug env p1)
                (\<lambda>p2. larger_ghost_mapping debug p2 larger)) = Inr p'"
    unfolding set_ghost_indices_def and_then_eq_Inr by blast
  from normalise_ghosts_Inr [OF 1] have n: "n_procs p1 = n_procs p" by simp
  show ?thesis
  proof (cases "n_procs p < 2")
    case True
    with 2 n have "p' = p1" by (simp add: early_exit_Inr)
    with 1 True show ?thesis by simp
  next
    case False
    with 2 n obtain p2 where "communication_pattern debug env p1 = Inr p2"
      "larger_ghost_mapping debug p2 larger = Inr p'"
      by (auto simp: and_then_eq_Inr)
    with 1 False show ?thesis by auto
  qed
qed

lemma communication_pattern_result:
  assumes "communication_pattern debug env p = Inr p'"
  shows "compute_ghost_targets debug (index_owner env) = Inr (ghost_targets_data p') \<and>
         import_targets_data p' = snd (collect_import_targets (n_procs p) (receive_buffer env)) \<and>
         n_import_indices_data p' = fst (collect_import_targets (n_procs p) (receive_buffer env)) \<and>
         (\<exists>sh. compress_import_indices debug (local_range_data p') (expanded_import_indices env)
            (import_targets_data p') 0
            (0, [],
             (resize (import_indices_chunks_by_rank_data p)
                (length (import_targets_data p') + 1) 0)[0 := 0])
            = Inr (sh, import_indices_data p', import_indices_chunks_by_rank_data p')) \<and>
         (\<exists>fi. local_range_fixup debug (global_size p) (n_procs p) (my_pid p)
            (exchange_endpoints (n_procs p) (global_size p)
               (if my_pid p = 0 then fst (local_range_data p) else bcast_first_index env)
               ((allgather_second env)[my_pid p := snd (local_range_data p)]))
            (local_range_data p) = Inr (fi, local_range_data p'))"
proof -
  from communication_pattern_Inr [OF assms] obtain p1 p2 where
    1: "exchange_and_fixup debug env p = Inr p1" and
    2: "ghost_target_grouping debug env p1 = Inr p2" and
    4: "local_compression debug env (import_target_discovery env p2) = Inr p'"
    by blast
  from exchange_and_fixup_Inr [OF 1] obtain fi lr where
    f: "local_range_fixup debug (global_size p) (n_procs p) (my_pid p)
          (exchange_endpoints (n_procs p) (global_size p)
             (if my_pid p = 0 then fst (local_range_data p) else bcast_first_index env)
             ((allgather_second env)[my_pid p := snd (local_range_data p)]))
          (local_range_data p) = Inr (fi, lr)" and
    a: "p1 = p\<lparr>local_range_data := lr\<rparr>"
    by blast
  from ghost_target_grouping_Inr [OF 2] obtain gt where
    g: "compute_ghost_targets debug (index_owner env) = Inr gt" and
    b: "p2 = p1\<lparr>ghost_targets_data := gt\<rparr>"
    by blast
  from local_compression_Inr [OF 4] obtain sh comp ch where
    r: "compress_import_indices debug (local_range_data (import_target_discovery env p2))
          (expanded_import_indices env) (import_targets_data (import_target_discovery env p2)) 0
          (0, [],
           (resize (import_indices_chunks_by_rank_data (import_target_discovery env p2))
              (length (import_targets_data (import_target_discovery env p2)) + 1) 0)[0 := 0])
          = Inr (sh, comp, ch)" and
    c: "p' = (import_target_discovery env p2)
                \<lparr>import_indices_chunks_by_rank_data := ch, import_indices_data := comp\<rparr>"
    by blast
  have lr: "local_range_data p' = lr" and gt: "ghost_targets_data p' = gt"
    and it: "import_targets_data p' = snd (collect_import_targets (n_procs p) (receive_buffer env))"
    and ni: "n_import_indices_data p' = fst (collect_import_targets (n_procs p) (receive_buffer env))"
    and comp: "import_indices_data p' = comp" and ch: "import_indices_chunks_by_rank_data p' = ch"
    by (simp_all add: a b c import_target_discovery_def)
  from r have "compress_import_indices debug (local_range_data p') (expanded_import_indices env)
            (import_targets_data p') 0
            (0, [],
             (resize (import_indices_chunks_by_rank_data p)
                (length (import_targets_data p') + 1) 0)[0 := 0])
            = Inr (sh, import_indices_data p', import_indices_chunks_by_rank_data p')"
    by (simp add: a b c import_target_discovery_def)
  with f g lr gt it ni show ?thesis by auto
qed

lemma set_ghost_indices_result:
  assumes "set_ghost_indices debug env p g larger = Inr p'"
    and "2 \<le> n_procs p"
  shows "\<exists>p1 p2. normalise_ghosts debug env p g = Inr p1 \<and>
           communication_pattern debug env p1 = Inr p2 \<and>
           n_ghost_indices_data p' = n_elements (tight_ghost_set p g) \<and>
           n_ghost_indices_data p' < 2 ^ 32 - 1 \<and>
           ghost_targets_data p' = ghost_targets_data p2 \<and>
           import_targets_data p' = import_targets_data p2 \<and>
           import_indices_data p' = import_indices_data p2 \<and>
           import_indices_chunks_by_rank_data p' = import_indices_chunks_by_rank_data p2 \<and>
           local_range_data p' = local_range_data p2 \<and>
           n_procs p1 = n_procs p \<and> my_pid p1 = my_pid p \<and> global_size p1 = global_size p \<and>
           local_range_data p1 = local_range_data p"
proof -
  from set_ghost_indices_Inr [OF assms(1)] assms(2) obtain p1 p2 where
    1: "normalise_ghosts debug env p g = Inr p1" and
    2: "communication_pattern debug env p1 = Inr p2" and
    3: "larger_ghost_mapping debug p2 larger = Inr p'"
    by (auto split: if_splits)
  from normalise_ghosts_Inr [OF 1] communication_pattern_frame [OF 2]
    larger_ghost_mapping_frame [OF 3] 1 2
  show ?thesis by auto
qed

lemmas partitioner_defs = Partitioner_members_def Partitioner_size_def Partitioner_default_def
  Partitioner_owned_def Partitioner_owned_ghost_def reinit_def MPI_COMM_SELF_def
  this_mpi_process_def n_mpi_processes_def local_size_def n_ghost_indices_def

lemmas eval_defs = set_owned_indices_def set_ghost_indices_def normalise_ghosts_def
  tight_ghost_set_def early_exit_def communication_pattern_def exchange_and_fixup_def
  exchange_endpoints_def forward_fill_def fix_local_range_def local_range_fixup_def
  ghost_target_grouping_def compute_ghost_targets_def extend_back_def
  import_target_discovery_def collect_import_targets_def receive_count_def
  import_index_exchange_def current_index_start_def local_compression_def resize_def
  ranges_in_local_window_def larger_ghost_mapping_def is_contiguous_def
  partitioner_defs index_set_defs integer_defs Let_def Min_range Max_range insert_Diff_if

subsection \<open>Repeated calls of set\_ghost\_indices\<close>

text \<open>
  On at least two processes every returning call without a larger ghost set appends one
  range to \<open>ghost_indices_subset_data\<close>.
\<close>

lemma set_ghost_indices_appends:
  assumes "2 \<le> n_procs p"
    and "set_ghost_indices debug env p g IndexSet_empty = Inr p'"
  shows "ghost_indices_subset_data p' =
           ghost_indices_subset_data p @
             [(local_size p', u32 (local_size p' + n_ghost_indices p'))]"
proof -
  from set_ghost_indices_Inr [OF assms(2)] assms(1) obtain p1 p2 where
    1: "normalise_ghosts debug env p g = Inr p1" and
    2: "communication_pattern debug env p1 = Inr p2" and
    3: "larger_ghost_mapping debug p2 IndexSet_empty = Inr p'"
    by (auto split: if_splits)
  from 3 have "ghost_indices_subset_data p' =
      ghost_indices_subset_data p2 @ [(local_size p2, u32 (local_size p2 + n_ghost_indices p2))]"
    by (auto simp: larger_ghost_mapping_def IndexSet_empty_def)
  moreover from larger_ghost_mapping_frame [OF 3]
  have "local_size p' = local_size p2" "n_ghost_indices p' = n_ghost_indices p2"
    by (simp_all add: local_size_def n_ghost_indices_def)
  moreover from normalise_ghosts_Inr [OF 1] communication_pattern_frame [OF 2]
  have "ghost_indices_subset_data p2 = ghost_indices_subset_data p" by simp
  ultimately show ?thesis by simp
qed

text \<open>
  C1. The claim is that a second call of \<open>set_ghost_indices\<close> with the same ghost set and
  no larger ghost set leaves the state as the first call left it. The branch for an
  absent larger set appends the trivial range to \<open>ghost_indices_subset_data\<close> and never
  clears the vector, whereas the branch for a larger set assigns a fresh vector. On two
  ranks, rank 0 owning \<open>[0, 5)\<close> of 10 indices with the ghosts 5 and 6, the constructor
  leaves \<open>[(5, 7)]\<close> and the second call leaves \<open>[(5, 7), (5, 7)]\<close>.
\<close>

theorem second_call_appends_subset_range:
  "\<exists>p1 p2.
     Partitioner_owned_ghost debug True
       \<lparr>n_ghost_on_other_ranks = 0, bcast_first_index = 0, allgather_second = [5, 10],
        index_owner = [1, 1], receive_buffer = [0, 0], expanded_import_indices = []\<rparr>
       \<lparr>index_space_size = 10, elements = {0 ..< 5}\<rparr>
       \<lparr>index_space_size = 10, elements = {5, 6}\<rparr>
       \<lparr>comm_context = 1, comm_group = [0, 1], comm_rank = 0\<rparr> = Inr p1 \<and>
     set_ghost_indices debug
       \<lparr>n_ghost_on_other_ranks = 0, bcast_first_index = 0, allgather_second = [5, 10],
        index_owner = [1, 1], receive_buffer = [0, 0], expanded_import_indices = []\<rparr>
       p1 \<lparr>index_space_size = 10, elements = {5, 6}\<rparr> IndexSet_empty = Inr p2 \<and>
     ghost_indices_subset_data p1 = [(5, 7)] \<and>
     ghost_indices_subset_data p2 = [(5, 7), (5, 7)] \<and>
     ghost_indices_subset_chunks_by_rank_data p2 = ghost_indices_subset_chunks_by_rank_data p1 \<and>
     p2 = p1\<lparr>ghost_indices_subset_data := [(5, 7), (5, 7)]\<rparr>"
  by (simp add: eval_defs)

subsection \<open>The overflow tests\<close>

text \<open>
  The thresholds of the two tests: an overflow is raised exactly for a count of at least
  \<open>2^32 - 1\<close>.
\<close>

lemma ghost_overflow_threshold:
  assumes "debug \<longrightarrow> n_elements g = 0 \<or>
             index_space_size g = index_space_size (locally_owned_range_data p)"
  shows "(normalise_ghosts debug env p g = Inl IndexOverflow) =
         (2 ^ 32 - 1 \<le> n_elements (tight_ghost_set p g))"
  using assms by (auto simp: normalise_ghosts_def Let_def unsigned_int_max_def)

lemma owned_overflow_threshold:
  assumes "debug \<longrightarrow> is_contiguous owned"
    and "0 < n_elements owned"
    and "nth_index_in_set owned 0 + n_elements owned < 2 ^ 64"
  shows "(set_owned_indices debug job p owned = Inl IndexOverflow) =
         (2 ^ 32 - 1 \<le> n_elements owned)"
proof -
  let ?a = "nth_index_in_set owned 0"
  let ?n = "n_elements owned"
  have d: "dof (?a + ?n) = ?a + ?n" using assms(3) by (rule dof_id)
  have "?a + ?n - ?a < 2 ^ 64" using assms(3) by simp
  from dof_minus_id [OF _ this] have m: "dof_minus (?a + ?n) ?a = ?n" by simp
  show ?thesis
    using assms(1,2)
    by (auto simp: set_owned_indices_def Let_def compress_def d m unsigned_int_max_def)
qed

text \<open>
  C3. The claim is that \<open>IndexOverflow\<close> is raised exactly for a count of at least
  \<open>2^32\<close>, so that a count of \<open>2^32 - 1\<close> passes. Both tests compare with
  \<^verbatim>\<open>std::numeric_limits<unsigned int>::max()\<close>, which is \<open>2^32 - 1\<close>, by \<open><\<close>: a
  contiguous owned set and a ghost set of exactly \<open>2^32 - 1\<close> elements both raise
  \<open>IndexOverflow\<close>, and \<open>2^32 - 2\<close> elements are the most that pass.
\<close>

theorem index_overflow_at_max_count:
  "n_elements \<lparr>index_space_size = 4294967296, elements = {0 ..< 4294967295}\<rparr> = 2 ^ 32 - 1 \<and>
   Partitioner_owned debug job
     \<lparr>index_space_size = 4294967296, elements = {0 ..< 4294967295}\<rparr> comm
     = Inl IndexOverflow \<and>
   Partitioner_owned_ghost debug job env
     \<lparr>index_space_size = 4294967296, elements = {}\<rparr>
     \<lparr>index_space_size = 4294967296, elements = {0 ..< 4294967295}\<rparr> comm
     = Inl IndexOverflow \<and>
   (\<exists>p. Partitioner_owned debug job
          \<lparr>index_space_size = 4294967296, elements = {0 ..< 4294967294}\<rparr> comm = Inr p)"
  by (simp add: eval_defs)

subsection \<open>Ghosts and owned indices are disjoint\<close>

text \<open>
  C5. Whenever \<open>set_ghost_indices\<close> returns, the stored ghost set is the input with the
  owned indices of the process taken out, so no index is both owned and a ghost; the
  owned range itself is not touched by the call.
\<close>

theorem ghosts_disjoint_from_owned:
  assumes "set_ghost_indices debug env p ghost_indices_in larger_ghost_index_set = Inr p'"
  shows "elements (ghost_indices_data p') \<inter> elements (locally_owned_range_data p') = {} \<and>
         elements (ghost_indices_data p') =
           elements ghost_indices_in - elements (locally_owned_range_data p) \<and>
         locally_owned_range_data p' = locally_owned_range_data p"
proof -
  from set_ghost_indices_Inr [OF assms] obtain p1 where
    1: "normalise_ghosts debug env p ghost_indices_in = Inr p1" and
    2: "if n_procs p < 2 then p' = p1
        else (\<exists>p2. communication_pattern debug env p1 = Inr p2 \<and>
                   larger_ghost_mapping debug p2 larger_ghost_index_set = Inr p')"
    by blast
  note p1 = normalise_ghosts_Inr [OF 1]
  have "ghost_indices_data p' = tight_ghost_set p ghost_indices_in \<and>
        locally_owned_range_data p' = locally_owned_range_data p"
  proof (cases "n_procs p < 2")
    case True
    with 2 have "p' = p1" by simp
    with p1 show ?thesis by simp
  next
    case False
    with 2 obtain p2 where 3: "communication_pattern debug env p1 = Inr p2" and
      4: "larger_ghost_mapping debug p2 larger_ghost_index_set = Inr p'" by auto
    from larger_ghost_mapping_frame [OF 4] communication_pattern_frame [OF 3]
    have "ghost_indices_data p' = ghost_indices_data p1 \<and>
          locally_owned_range_data p' = locally_owned_range_data p1" by simp
    with p1 show ?thesis by simp
  qed
  then show ?thesis by (auto simp: elements_tight_ghost_set)
qed

theorem ghosts_disjoint_from_owned_witness:
  "\<exists>p p'.
     Partitioner_owned True True \<lparr>index_space_size = 10, elements = {0 ..< 5}\<rparr>
       \<lparr>comm_context = 1, comm_group = [0, 1], comm_rank = 0\<rparr> = Inr p \<and>
     set_ghost_indices True
       \<lparr>n_ghost_on_other_ranks = 0, bcast_first_index = 0, allgather_second = [5, 10],
        index_owner = [1, 1], receive_buffer = [0, 0], expanded_import_indices = []\<rparr>
       p \<lparr>index_space_size = 10, elements = {3, 4, 5, 6}\<rparr> IndexSet_empty = Inr p' \<and>
     elements (locally_owned_range_data p') = {0 ..< 5} \<and>
     elements (ghost_indices_data p') = {5, 6} \<and>
     elements (ghost_indices_data p') \<inter> elements (locally_owned_range_data p') = {}"
proof -
  have "\<exists>p p'.
     Partitioner_owned True True \<lparr>index_space_size = 10, elements = {0 ..< 5}\<rparr>
       \<lparr>comm_context = 1, comm_group = [0, 1], comm_rank = 0\<rparr> = Inr p \<and>
     set_ghost_indices True
       \<lparr>n_ghost_on_other_ranks = 0, bcast_first_index = 0, allgather_second = [5, 10],
        index_owner = [1, 1], receive_buffer = [0, 0], expanded_import_indices = []\<rparr>
       p \<lparr>index_space_size = 10, elements = {3, 4, 5, 6}\<rparr> IndexSet_empty = Inr p' \<and>
     elements (locally_owned_range_data p') = {0 ..< 5} \<and>
     elements (ghost_indices_data p') = {5, 6}"
    by (simp add: eval_defs)
  then obtain p p' where
    a: "Partitioner_owned True True \<lparr>index_space_size = 10, elements = {0 ..< 5}\<rparr>
       \<lparr>comm_context = 1, comm_group = [0, 1], comm_rank = 0\<rparr> = Inr p" and
    b: "set_ghost_indices True
       \<lparr>n_ghost_on_other_ranks = 0, bcast_first_index = 0, allgather_second = [5, 10],
        index_owner = [1, 1], receive_buffer = [0, 0], expanded_import_indices = []\<rparr>
       p \<lparr>index_space_size = 10, elements = {3, 4, 5, 6}\<rparr> IndexSet_empty = Inr p'" and
    c: "elements (locally_owned_range_data p') = {0 ..< 5}"
       "elements (ghost_indices_data p') = {5, 6}"
    by blast
  from ghosts_disjoint_from_owned [OF b]
  have "elements (ghost_indices_data p') \<inter> elements (locally_owned_range_data p') = {}"
    by (rule conjunct1)
  with a b c show ?thesis by blast
qed

subsection \<open>Symmetry of is\_compatible\<close>

lemma MPI_Comm_compare_sym:
  "(MPI_Comm_compare c1 c2 = MPI_IDENT \<or> MPI_Comm_compare c1 c2 = MPI_CONGRUENT) =
   (MPI_Comm_compare c2 c1 = MPI_IDENT \<or> MPI_Comm_compare c2 c1 = MPI_CONGRUENT)"
  by (auto simp: MPI_Comm_compare_def split: if_splits)

text \<open>
  C7. \<open>is_compatible\<close> gives the same answer with the two partitioners exchanged, whether
  they are the same object, sit on identical or congruent communicators, or on
  communicators that differ.
\<close>

theorem is_compatible_symmetric:
  "is_compatible job_supports_mpi store a b = is_compatible job_supports_mpi store b a"
  unfolding is_compatible_def
  using MPI_Comm_compare_sym [of "communicator (store a)" "communicator (store b)"]
  by auto

theorem is_compatible_symmetric_witness:
  "is_compatible True (\<lambda>a. if a = 0 then Partitioner_size 10 else Partitioner_size 12) 0 1 =
   is_compatible True (\<lambda>a. if a = 0 then Partitioner_size 10 else Partitioner_size 12) 1 0 \<and>
   \<not> is_compatible True (\<lambda>a. if a = 0 then Partitioner_size 10 else Partitioner_size 12) 0 1 \<and>
   is_compatible True (\<lambda>a. Partitioner_size 10) 0 1 \<and>
   is_compatible True (\<lambda>a. Partitioner_size 10) 1 0"
  using is_compatible_symmetric
    [of True "\<lambda>a. if a = 0 then Partitioner_size 10 else Partitioner_size 12" 0 1]
    is_compatible_symmetric [of True "\<lambda>a. Partitioner_size 10" 0 1]
  by (simp add: is_compatible_def MPI_Comm_compare_def partitioner_defs)

subsection \<open>set\_owned\_indices with an empty set\<close>



subsection \<open>The early return on a single process\<close>

text \<open>
  C9. With fewer than two processes a returning call of \<open>set_ghost_indices\<close> is the
  normalisation step alone: the larger ghost set is never looked at, and the subset
  ranges, their chunk table, the count in the larger set, the import targets, the import
  indices and their chunk table are what they were before the call.
\<close>

theorem single_process_early_return:
  assumes "n_procs p < 2"
    and "set_ghost_indices debug env p ghost_indices_in larger_ghost_index_set = Inr p'"
  shows "normalise_ghosts debug env p ghost_indices_in = Inr p' \<and>
         ghost_indices_subset_data p' = ghost_indices_subset_data p \<and>
         ghost_indices_subset_chunks_by_rank_data p' =
           ghost_indices_subset_chunks_by_rank_data p \<and>
         n_ghost_indices_in_larger_set p' = n_ghost_indices_in_larger_set p \<and>
         import_targets_data p' = import_targets_data p \<and>
         import_indices_data p' = import_indices_data p \<and>
         import_indices_chunks_by_rank_data p' = import_indices_chunks_by_rank_data p"
proof -
  from set_ghost_indices_Inr [OF assms(2)] assms(1)
  have 1: "normalise_ghosts debug env p ghost_indices_in = Inr p'" by auto
  from normalise_ghosts_Inr [OF 1] 1 show ?thesis by simp
qed

theorem single_process_early_return_witness:
  "\<exists>p p'.
     Partitioner_owned True True \<lparr>index_space_size = 10, elements = {0 ..< 5}\<rparr> MPI_COMM_SELF
       = Inr p \<and>
     n_procs p < 2 \<and>
     set_ghost_indices True
       \<lparr>n_ghost_on_other_ranks = 0, bcast_first_index = 0, allgather_second = [],
        index_owner = [], receive_buffer = [], expanded_import_indices = []\<rparr>
       p \<lparr>index_space_size = 10, elements = {}\<rparr>
       \<lparr>index_space_size = 10, elements = {7, 8}\<rparr> = Inr p' \<and>
     ghost_indices_subset_data p' = [] \<and>
     ghost_indices_subset_chunks_by_rank_data p' = [] \<and>
     n_ghost_indices_in_larger_set p' = 0 \<and>
     import_targets_data p' = [] \<and>
     import_indices_data p' = [] \<and>
     import_indices_chunks_by_rank_data p' = []"
proof -
  have "\<exists>p p'.
     Partitioner_owned True True \<lparr>index_space_size = 10, elements = {0 ..< 5}\<rparr> MPI_COMM_SELF
       = Inr p \<and>
     n_procs p < 2 \<and>
     set_ghost_indices True
       \<lparr>n_ghost_on_other_ranks = 0, bcast_first_index = 0, allgather_second = [],
        index_owner = [], receive_buffer = [], expanded_import_indices = []\<rparr>
       p \<lparr>index_space_size = 10, elements = {}\<rparr>
       \<lparr>index_space_size = 10, elements = {7, 8}\<rparr> = Inr p' \<and>
     ghost_indices_subset_data p = [] \<and>
     ghost_indices_subset_chunks_by_rank_data p = [] \<and>
     n_ghost_indices_in_larger_set p = 0 \<and>
     import_targets_data p = [] \<and>
     import_indices_data p = [] \<and>
     import_indices_chunks_by_rank_data p = []"
    by (simp add: eval_defs)
  then obtain p p' where
    a: "Partitioner_owned True True \<lparr>index_space_size = 10, elements = {0 ..< 5}\<rparr>
          MPI_COMM_SELF = Inr p" and
    n: "n_procs p < 2" and
    b: "set_ghost_indices True
       \<lparr>n_ghost_on_other_ranks = 0, bcast_first_index = 0, allgather_second = [],
        index_owner = [], receive_buffer = [], expanded_import_indices = []\<rparr>
       p \<lparr>index_space_size = 10, elements = {}\<rparr>
       \<lparr>index_space_size = 10, elements = {7, 8}\<rparr> = Inr p'" and
    c: "ghost_indices_subset_data p = []"
       "ghost_indices_subset_chunks_by_rank_data p = []"
       "n_ghost_indices_in_larger_set p = 0"
       "import_targets_data p = []"
       "import_indices_data p = []"
       "import_indices_chunks_by_rank_data p = []"
    by blast
  from single_process_early_return [OF n b] c
  have "ghost_indices_subset_data p' = [] \<and>
     ghost_indices_subset_chunks_by_rank_data p' = [] \<and>
     n_ghost_indices_in_larger_set p' = 0 \<and>
     import_targets_data p' = [] \<and>
     import_indices_data p' = [] \<and>
     import_indices_chunks_by_rank_data p' = []"
    by simp
  with a n b show ?thesis by blast
qed

subsection \<open>The fix-up is skipped for a global size of zero\<close>

text \<open>
  C10. With \<open>global_size = 0\<close> the fix-up block is the identity: \<open>first_index\<close> stays as
  the exchange built it (entry 0 is the broadcast value and entry \<open>i\<close> between 1 and
  \<open>n_procs - 1\<close> is the gathered end of rank \<open>i - 1\<close>, zero or not), and the local range
  of the process is not corrected.
\<close>

theorem zero_global_size_skips_fixup:
  assumes "global_size p = 0"
  shows "local_range_fixup debug (global_size p) (n_procs p) (my_pid p)
           (exchange_endpoints (n_procs p) (global_size p) root_first gathered)
           (local_range_data p) =
         Inr (exchange_endpoints (n_procs p) 0 root_first gathered, local_range_data p) \<and>
         (0 < n_procs p \<longrightarrow>
            exchange_endpoints (n_procs p) 0 root_first gathered ! 0 = root_first) \<and>
         (\<forall>i. 0 < i \<and> i < n_procs p \<and> i \<le> length gathered \<longrightarrow>
            exchange_endpoints (n_procs p) 0 root_first gathered ! i = gathered ! (i - 1)) \<and>
         exchange_and_fixup debug env p = Inr p"
  using assms
  by (auto simp: local_range_fixup_def exchange_and_fixup_def exchange_endpoints_def
        nth_append simp del: upt_Suc)

theorem zero_global_size_skips_fixup_witness:
  "\<exists>p.
     set_owned_indices True True
       (Partitioner_default\<lparr>have_ghost_indices := False,
          communicator := \<lparr>comm_context = 1, comm_group = [0, 1, 2], comm_rank = 2\<rparr>\<rparr>)
       \<lparr>index_space_size = 8, elements = {}\<rparr> = Inr p \<and>
     global_size p = 0 \<and> n_procs p = 3 \<and> my_pid p = 2 \<and>
     local_range_fixup True (global_size p) (n_procs p) (my_pid p)
       (exchange_endpoints (n_procs p) (global_size p) 0 [8, 0, 0]) (local_range_data p) =
     Inr ([0, 8, 0, 0], (0, 0))"
proof -
  have "\<exists>p.
     set_owned_indices True True
       (Partitioner_default\<lparr>have_ghost_indices := False,
          communicator := \<lparr>comm_context = 1, comm_group = [0, 1, 2], comm_rank = 2\<rparr>\<rparr>)
       \<lparr>index_space_size = 8, elements = {}\<rparr> = Inr p \<and>
     global_size p = 0 \<and> n_procs p = 3 \<and> my_pid p = 2 \<and> local_range_data p = (0, 0)"
    by (simp add: eval_defs)
  then obtain p where
    a: "set_owned_indices True True
       (Partitioner_default\<lparr>have_ghost_indices := False,
          communicator := \<lparr>comm_context = 1, comm_group = [0, 1, 2], comm_rank = 2\<rparr>\<rparr>)
       \<lparr>index_space_size = 8, elements = {}\<rparr> = Inr p" and
    g: "global_size p = 0" and
    c: "n_procs p = 3" "my_pid p = 2" "local_range_data p = (0, 0)"
    by blast
  have e: "exchange_endpoints 3 0 0 [8, 0, 0] = [0, 8, 0, 0]"
    by (simp add: exchange_endpoints_def upt_rec)
  from zero_global_size_skips_fixup [OF g, of True 0 "[8, 0, 0]"] a g c e
  show ?thesis by auto
qed

subsection \<open>Ghost targets\<close>

lemma group_owners_invariant:
  assumes "group_owners debug owners (ts @ [(r, k)]) = Inr res"
    and "sorted owners"
    and "\<forall>i \<in> set owners. r \<le> i"
    and "sorted_wrt (<) (map fst ts @ [r])"
    and "sum_list (map snd ts) + k + length owners < 2 ^ 32"
    and "\<forall>t \<in> set ts. 0 < snd t"
    and "0 < k \<or> (owners \<noteq> [] \<and> hd owners = r)"
  shows "sorted_wrt (<) (map fst res) \<and> (\<forall>t \<in> set res. 0 < snd t) \<and>
         sum_list (map snd res) = sum_list (map snd ts) + k + length owners"
  using assms
proof (induction owners arbitrary: ts r k)
  case Nil
  then show ?case by auto
next
  case (Cons i owners)
  show ?case
  proof (cases "i = r")
    case True
    have k: "u32 (k + 1) = k + 1"
      using Cons.prems(5) by (simp add: u32_def)
    from Cons.prems(1) True k
    have run: "group_owners debug owners (ts @ [(r, k + 1)]) = Inr res"
      by (simp add: extend_back_def)
    have "sorted_wrt (<) (map fst res) \<and> (\<forall>t \<in> set res. 0 < snd t) \<and>
         sum_list (map snd res) = sum_list (map snd ts) + (k + 1) + length owners"
      using Cons.prems by (intro Cons.IH [OF run]) auto
    then show ?thesis by simp
  next
    case False
    with Cons.prems(3) have lt: "r < i" by auto
    from Cons.prems(7) False have kpos: "0 < k" by auto
    from Cons.prems(1) False lt
    have run: "group_owners debug owners ((ts @ [(r, k)]) @ [(i, 1)]) = Inr res"
      by (simp split: if_splits)
    have srt: "sorted_wrt (<) (map fst (ts @ [(r, k)]) @ [i])"
      using Cons.prems(4) lt by (auto simp: sorted_wrt_append)
    have "sorted_wrt (<) (map fst res) \<and> (\<forall>t \<in> set res. 0 < snd t) \<and>
         sum_list (map snd res) = sum_list (map snd (ts @ [(r, k)])) + 1 + length owners"
      using Cons.prems kpos srt by (intro Cons.IH [OF run]) auto
    then show ?thesis by simp
  qed
qed

lemma compute_ghost_targets_props:
  assumes "compute_ghost_targets debug owners = Inr targets"
    and "sorted owners"
    and "length owners < 2 ^ 32"
  shows "sorted_wrt (<) (map fst targets) \<and> (\<forall>t \<in> set targets. 0 < snd t) \<and>
         sum_list (map snd targets) = length owners"
proof (cases owners)
  case Nil
  with assms(1) show ?thesis by (simp add: compute_ghost_targets_def)
next
  case (Cons i rest)
  with assms(1) have run: "group_owners debug owners ([] @ [(i, 0)]) = Inr targets"
    by (simp add: compute_ghost_targets_def)
  from group_owners_invariant [OF run] assms(2,3) Cons
  show ?thesis by auto
qed

text \<open>
  With fewer than two processes the call returns before \<open>ghost_targets_data\<close> is cleared,
  so the vector stays as it was.
\<close>

lemma single_process_keeps_ghost_targets:
  assumes "n_procs p < 2"
    and "set_ghost_indices debug env p g larger = Inr p'"
  shows "ghost_targets_data p' = ghost_targets_data p"
proof -
  from set_ghost_indices_Inr [OF assms(2)] assms(1)
  have "normalise_ghosts debug env p g = Inr p'" by auto
  from normalise_ghosts_Inr [OF this] show ?thesis by simp
qed

text \<open>
  C6. The claim holds no assumption on the number of processes. The early return for
  \<open>n_procs < 2\<close> comes before \<open>ghost_targets_data\<close> is cleared and before the resolver is
  asked. Rank 0 of two ranks, owning \<open>[0, 5)\<close> of 10 indices with the ghosts 5 and 6, has
  \<open>ghost_targets_data = [(1, 2)]\<close>; after \<open>reinit\<close> onto \<open>MPI_COMM_SELF\<close> with the same owned
  set and no ghosts, \<open>set_ghost_indices\<close> returns with \<open>n_ghost_indices_data = 0\<close> and
  \<open>ghost_targets_data\<close> still \<open>[(1, 2)]\<close>. A resolver that answers with no owner is
  non-decreasing and has one owner for each of the 0 tight ghosts, yet the counts add up
  to 2.
\<close>

theorem stale_ghost_targets_counterexample:
  "Partitioner_owned_ghost True True
     \<lparr>n_ghost_on_other_ranks = 0, bcast_first_index = 0, allgather_second = [5, 10],
      index_owner = [1, 1], receive_buffer = [0, 0], expanded_import_indices = []\<rparr>
     \<lparr>index_space_size = 10, elements = {0 ..< 5}\<rparr>
     \<lparr>index_space_size = 10, elements = {5, 6}\<rparr>
     \<lparr>comm_context = 1, comm_group = [0, 1], comm_rank = 0\<rparr>
   = Inr \<lparr>global_size = 10,
          locally_owned_range_data = \<lparr>index_space_size = 10, elements = {0 ..< 5}\<rparr>,
          local_range_data = (0, 5),
          ghost_indices_data = \<lparr>index_space_size = 10, elements = {5, 6}\<rparr>,
          n_ghost_indices_data = 2,
          ghost_targets_data = [(1, 2)],
          import_indices_data = [],
          n_import_indices_data = 0,
          import_targets_data = [],
          import_indices_chunks_by_rank_data = [0],
          n_ghost_indices_in_larger_set = 2,
          ghost_indices_subset_chunks_by_rank_data = [],
          ghost_indices_subset_data = [(5, 7)],
          my_pid = 0,
          n_procs = 2,
          communicator = \<lparr>comm_context = 1, comm_group = [0, 1], comm_rank = 0\<rparr>,
          have_ghost_indices = True\<rparr> \<and>
   sorted (index_owner
     \<lparr>n_ghost_on_other_ranks = 0, bcast_first_index = 0, allgather_second = [],
      index_owner = [], receive_buffer = [], expanded_import_indices = []\<rparr>) \<and>
   map_sum id n_ghost_indices_data
     (reinit True True
        \<lparr>n_ghost_on_other_ranks = 0, bcast_first_index = 0, allgather_second = [],
         index_owner = [], receive_buffer = [], expanded_import_indices = []\<rparr>
        \<lparr>global_size = 10,
          locally_owned_range_data = \<lparr>index_space_size = 10, elements = {0 ..< 5}\<rparr>,
          local_range_data = (0, 5),
          ghost_indices_data = \<lparr>index_space_size = 10, elements = {5, 6}\<rparr>,
          n_ghost_indices_data = 2,
          ghost_targets_data = [(1, 2)],
          import_indices_data = [],
          n_import_indices_data = 0,
          import_targets_data = [],
          import_indices_chunks_by_rank_data = [0],
          n_ghost_indices_in_larger_set = 2,
          ghost_indices_subset_chunks_by_rank_data = [],
          ghost_indices_subset_data = [(5, 7)],
          my_pid = 0,
          n_procs = 2,
          communicator = \<lparr>comm_context = 1, comm_group = [0, 1], comm_rank = 0\<rparr>,
          have_ghost_indices = True\<rparr>
        \<lparr>index_space_size = 10, elements = {0 ..< 5}\<rparr>
        \<lparr>index_space_size = 10, elements = {}\<rparr>
        MPI_COMM_SELF)
   = Inr (length (index_owner
     \<lparr>n_ghost_on_other_ranks = 0, bcast_first_index = 0, allgather_second = [],
      index_owner = [], receive_buffer = [], expanded_import_indices = []\<rparr>)) \<and>
   map_sum id ghost_targets_data
     (reinit True True
        \<lparr>n_ghost_on_other_ranks = 0, bcast_first_index = 0, allgather_second = [],
         index_owner = [], receive_buffer = [], expanded_import_indices = []\<rparr>
        \<lparr>global_size = 10,
          locally_owned_range_data = \<lparr>index_space_size = 10, elements = {0 ..< 5}\<rparr>,
          local_range_data = (0, 5),
          ghost_indices_data = \<lparr>index_space_size = 10, elements = {5, 6}\<rparr>,
          n_ghost_indices_data = 2,
          ghost_targets_data = [(1, 2)],
          import_indices_data = [],
          n_import_indices_data = 0,
          import_targets_data = [],
          import_indices_chunks_by_rank_data = [0],
          n_ghost_indices_in_larger_set = 2,
          ghost_indices_subset_chunks_by_rank_data = [],
          ghost_indices_subset_data = [(5, 7)],
          my_pid = 0,
          n_procs = 2,
          communicator = \<lparr>comm_context = 1, comm_group = [0, 1], comm_rank = 0\<rparr>,
          have_ghost_indices = True\<rparr>
        \<lparr>index_space_size = 10, elements = {0 ..< 5}\<rparr>
        \<lparr>index_space_size = 10, elements = {}\<rparr>
        MPI_COMM_SELF)
   = Inr [(1, 2)] \<and>
   sum_list (map snd [(1, 2 :: nat)]) \<noteq> (0 :: nat)"
  by (simp add: eval_defs)

text \<open>
  C6, amended. On at least two processes, when the resolver returns one owner for each
  tight ghost and the owners are non-decreasing, a returning call of \<open>set_ghost_indices\<close>
  leaves \<open>ghost_targets_data\<close> strictly ascending by rank (so every rank appears at most
  once), with every count positive and the counts adding up to \<open>n_ghost_indices_data\<close>.
\<close>

theorem ghost_targets_sorted_positive_sum:
  assumes "set_ghost_indices debug env p ghost_indices_in larger_ghost_index_set = Inr p'"
    and "2 \<le> n_procs p"
    and "sorted (index_owner env)"
    and "length (index_owner env) = n_ghost_indices_data p'"
  shows "sorted_wrt (<) (map fst (ghost_targets_data p')) \<and>
         (\<forall>t \<in> set (ghost_targets_data p'). 0 < snd t) \<and>
         distinct (map fst (ghost_targets_data p')) \<and>
         sum_list (map snd (ghost_targets_data p')) = n_ghost_indices_data p'"
proof -
  from set_ghost_indices_result [OF assms(1,2)] obtain p1 p2 where
    2: "communication_pattern debug env p1 = Inr p2" and
    n: "n_ghost_indices_data p' < 2 ^ 32 - 1" and
    t: "ghost_targets_data p' = ghost_targets_data p2"
    by blast
  from communication_pattern_result [OF 2] t
  have c: "compute_ghost_targets debug (index_owner env) = Inr (ghost_targets_data p')"
    by simp
  from n assms(4) have "length (index_owner env) < 2 ^ 32" by simp
  from compute_ghost_targets_props [OF c assms(3) this] assms(4)
  have "sorted_wrt (<) (map fst (ghost_targets_data p')) \<and>
         (\<forall>t \<in> set (ghost_targets_data p'). 0 < snd t) \<and>
         sum_list (map snd (ghost_targets_data p')) = n_ghost_indices_data p'"
    by simp
  then show ?thesis by (auto simp: strict_sorted_iff)
qed

theorem ghost_targets_sorted_positive_sum_witness:
  "\<exists>p p'.
     Partitioner_owned True True \<lparr>index_space_size = 12, elements = {4 ..< 8}\<rparr>
       \<lparr>comm_context = 1, comm_group = [0, 1, 2], comm_rank = 1\<rparr> = Inr p \<and>
     set_ghost_indices True
       \<lparr>n_ghost_on_other_ranks = 0, bcast_first_index = 0, allgather_second = [4, 8, 12],
        index_owner = [0, 0, 2], receive_buffer = [0, 0, 0], expanded_import_indices = []\<rparr>
       p \<lparr>index_space_size = 12, elements = {2, 3, 8}\<rparr> IndexSet_empty = Inr p' \<and>
     2 \<le> n_procs p \<and>
     n_ghost_indices_data p' = 3 \<and>
     ghost_targets_data p' = [(0, 2), (2, 1)] \<and>
     sorted_wrt (<) (map fst (ghost_targets_data p')) \<and>
     distinct (map fst (ghost_targets_data p')) \<and>
     sum_list (map snd (ghost_targets_data p')) = n_ghost_indices_data p'"
proof -
  let ?env = "\<lparr>n_ghost_on_other_ranks = 0, bcast_first_index = 0, allgather_second = [4, 8, 12],
        index_owner = [0, 0, 2], receive_buffer = [0, 0, 0], expanded_import_indices = []\<rparr>"
  have "\<exists>p p'.
     Partitioner_owned True True \<lparr>index_space_size = 12, elements = {4 ..< 8}\<rparr>
       \<lparr>comm_context = 1, comm_group = [0, 1, 2], comm_rank = 1\<rparr> = Inr p \<and>
     set_ghost_indices True ?env
       p \<lparr>index_space_size = 12, elements = {2, 3, 8}\<rparr> IndexSet_empty = Inr p' \<and>
     2 \<le> n_procs p \<and>
     n_ghost_indices_data p' = 3 \<and>
     ghost_targets_data p' = [(0, 2), (2, 1)]"
    by (simp add: eval_defs)
  then obtain p p' where
    a: "Partitioner_owned True True \<lparr>index_space_size = 12, elements = {4 ..< 8}\<rparr>
       \<lparr>comm_context = 1, comm_group = [0, 1, 2], comm_rank = 1\<rparr> = Inr p" and
    b: "set_ghost_indices True ?env
       p \<lparr>index_space_size = 12, elements = {2, 3, 8}\<rparr> IndexSet_empty = Inr p'" and
    n: "2 \<le> n_procs p" and
    c: "n_ghost_indices_data p' = 3" "ghost_targets_data p' = [(0, 2), (2, 1)]"
    by blast
  have s: "sorted (index_owner ?env)" by simp
  have l: "length (index_owner ?env) = n_ghost_indices_data p'" using c by simp
  from ghost_targets_sorted_positive_sum [OF b n s l]
  have "sorted_wrt (<) (map fst (ghost_targets_data p')) \<and>
     distinct (map fst (ghost_targets_data p')) \<and>
     sum_list (map snd (ghost_targets_data p')) = n_ghost_indices_data p'"
    by blast
  with a b n c show ?thesis by blast
qed

subsection \<open>The endpoint exchange and the fix-up\<close>

lemma length_exchange_endpoints [simp]:
  "length (exchange_endpoints nprocs gsize b g) = Suc nprocs"
  by (simp add: exchange_endpoints_def)

lemma nth_exchange_endpoints:
  "i \<le> nprocs \<Longrightarrow>
   exchange_endpoints nprocs gsize b g ! i =
     (if i = nprocs then gsize else if i = 0 then b
      else if i - 1 < length g then g ! (i - 1) else 0)"
  unfolding exchange_endpoints_def
  by (subst nth_map_upt) auto

lemma tiles_withD:
  assumes "tiles_with bs rs n"
  shows "length bs = Suc (length rs)" "bs ! 0 = 0" "bs ! length rs = n"
    and "\<And>r. r < length rs \<Longrightarrow> fst (rs ! r) < snd (rs ! r) \<Longrightarrow>
           fst (rs ! r) = bs ! r \<and> snd (rs ! r) = bs ! Suc r"
    and "\<And>r. r < length rs \<Longrightarrow> \<not> fst (rs ! r) < snd (rs ! r) \<Longrightarrow>
           fst (rs ! r) = snd (rs ! r) \<and> bs ! Suc r = bs ! r \<and>
           (fst (rs ! r) = 0 \<or> fst (rs ! r) = bs ! r)"
  using assms by (auto simp: tiles_with_def list_all_iff)

lemma tiles_with_step:
  assumes "tiles_with bs rs n" "r < length rs"
  shows "bs ! r \<le> bs ! Suc r"
  using tiles_withD(4,5) [OF assms(1) assms(2)] by (cases "fst (rs ! r) < snd (rs ! r)") auto

lemma tiles_with_sorted:
  assumes "tiles_with bs rs n"
  shows "sorted bs"
  unfolding sorted_iff_nth_Suc
  using tiles_with_step [OF assms] tiles_withD(1) [OF assms] by auto

lemma tiles_with_gathered:
  assumes "tiles_with bs rs n" "r < length rs"
  shows "if snd (rs ! r) = 0 then bs ! Suc r = bs ! r else bs ! Suc r = snd (rs ! r)"
  using tiles_withD(4,5) [OF assms(1) assms(2)] by (cases "fst (rs ! r) < snd (rs ! r)") auto

lemma tiles_with_first:
  assumes "tiles_with bs rs n" "0 < length rs"
  shows "fst (rs ! 0) = 0"
  using tiles_withD(4,5) [OF assms(1) assms(2)] tiles_withD(2) [OF assms(1)]
  by (cases "fst (rs ! 0) < snd (rs ! 0)") auto

lemma forward_fill_prefix:
  assumes t: "tiles_with bs rs n" and k: "k < length rs"
  defines "fi0 \<equiv> exchange_endpoints (length rs) n (fst (rs ! 0)) (map snd rs)"
  defines "F \<equiv> fold (\<lambda>i fi. if fi ! i = 0 then fi[i := fi ! (i - 1)] else fi) [1 ..< Suc k] fi0"
  shows "length F = Suc (length rs) \<and> (\<forall>i \<le> k. F ! i = bs ! i) \<and>
         (\<forall>i. k < i \<and> i \<le> length rs \<longrightarrow> F ! i = fi0 ! i)"
  using k unfolding F_def
proof (induction k)
  case 0
  then show ?case
    using tiles_with_first [OF t] tiles_withD(2) [OF t]
    by (simp add: fi0_def nth_exchange_endpoints)
next
  case (Suc k)
  let ?G = "fold (\<lambda>i fi. if fi ! i = 0 then fi[i := fi ! (i - 1)] else fi) [1 ..< Suc k] fi0"
  from Suc have IH: "length ?G = Suc (length rs)" "\<forall>i \<le> k. ?G ! i = bs ! i"
    "\<forall>i. k < i \<and> i \<le> length rs \<longrightarrow> ?G ! i = fi0 ! i"
    by auto
  from Suc.prems have kr: "k < length rs" by simp
  have g: "?G ! Suc k = snd (rs ! k)"
    using IH(3) Suc.prems by (simp add: fi0_def nth_exchange_endpoints)
  have b: "?G ! k = bs ! k" using IH(2) by simp
  note step = tiles_with_gathered [OF t kr]
  show ?case
  proof (cases "snd (rs ! k) = 0")
    case True
    with step have e: "bs ! Suc k = bs ! k" by simp
    have "fold (\<lambda>i fi. if fi ! i = 0 then fi[i := fi ! (i - 1)] else fi) [1 ..< Suc (Suc k)] fi0
          = ?G[Suc k := bs ! k]"
      using True g b by simp
    then show ?thesis using IH e Suc.prems
      by (auto simp: nth_list_update less_Suc_eq_le le_Suc_eq)
  next
    case False
    with step have e: "bs ! Suc k = snd (rs ! k)" by simp
    have "fold (\<lambda>i fi. if fi ! i = 0 then fi[i := fi ! (i - 1)] else fi) [1 ..< Suc (Suc k)] fi0
          = ?G"
      using False g by simp
    then show ?thesis using IH e g Suc.prems
      by (auto simp: le_Suc_eq)
  qed
qed

lemma forward_fill_tiles:
  assumes t: "tiles_with bs rs n" and p: "0 < length rs"
  shows "forward_fill (length rs) (exchange_endpoints (length rs) n (fst (rs ! 0)) (map snd rs))
         = bs"
proof -
  obtain k where k: "length rs = Suc k" using p by (cases "length rs") auto
  then have kl: "k < length rs" by simp
  note F = forward_fill_prefix [OF t kl]
  show ?thesis
  proof (rule nth_equalityI)
    show "length (forward_fill (length rs)
            (exchange_endpoints (length rs) n (fst (rs ! 0)) (map snd rs))) = length bs"
      using F tiles_withD(1) [OF t] by (simp add: forward_fill_def k)
  next
    fix i
    assume "i < length (forward_fill (length rs)
            (exchange_endpoints (length rs) n (fst (rs ! 0)) (map snd rs)))"
    then have i: "i \<le> length rs" using F by (simp add: forward_fill_def k)
    show "forward_fill (length rs)
            (exchange_endpoints (length rs) n (fst (rs ! 0)) (map snd rs)) ! i = bs ! i"
    proof (cases "i \<le> k")
      case True
      with F show ?thesis by (simp add: forward_fill_def k)
    next
      case False
      with i k have "i = length rs" by simp
      with F False tiles_withD(3) [OF t] show ?thesis
        by (simp add: forward_fill_def k nth_exchange_endpoints)
    qed
  qed
qed

lemma tiles_with_zero:
  assumes t: "tiles_with bs rs 0" and p: "0 < length rs"
  shows "exchange_endpoints (length rs) 0 (fst (rs ! 0)) (map snd rs) = bs"
    and "\<And>r. r < length rs \<Longrightarrow> rs ! r = (bs ! r, bs ! r)"
proof -
  have z: "bs ! i = 0" if "i \<le> length rs" for i
  proof -
    have "bs ! i \<le> bs ! length rs"
      using tiles_with_sorted [OF t] that tiles_withD(1) [OF t]
      by (auto simp: sorted_iff_nth_mono)
    with tiles_withD(3) [OF t] show ?thesis by simp
  qed
  have e: "fst (rs ! r) = 0 \<and> snd (rs ! r) = 0" if "r < length rs" for r
    using tiles_withD(4,5) [OF t that] z [of r] z [of "Suc r"] that
    by (cases "fst (rs ! r) < snd (rs ! r)") auto
  show "\<And>r. r < length rs \<Longrightarrow> rs ! r = (bs ! r, bs ! r)"
    using e z by (simp add: prod_eq_iff)
  show "exchange_endpoints (length rs) 0 (fst (rs ! 0)) (map snd rs) = bs"
  proof (rule nth_equalityI)
    show "length (exchange_endpoints (length rs) 0 (fst (rs ! 0)) (map snd rs)) = length bs"
      using tiles_withD(1) [OF t] by simp
  next
    fix i
    assume "i < length (exchange_endpoints (length rs) 0 (fst (rs ! 0)) (map snd rs))"
    then have i: "i \<le> length rs" by simp
    then show "exchange_endpoints (length rs) 0 (fst (rs ! 0)) (map snd rs) ! i = bs ! i"
      using z [OF i] e [of 0] e [of "i - 1"] p
      by (auto simp: nth_exchange_endpoints)
  qed
qed

lemma exchange_and_fixup_on_rank:
  assumes "r < length ps" and "my_pid (ps ! r) = r"
    and "bcast_first_index env = fst (local_range_data (ps ! 0))"
    and "allgather_second env = map (\<lambda>q. snd (local_range_data q)) ps"
  shows "exchange_and_fixup debug env (ps ! r) =
         and_then (fixup_on_rank debug ps r) (\<lambda>x. Inr ((ps ! r)\<lparr>local_range_data := snd x\<rparr>))"
proof -
  have "(map (\<lambda>q. snd (local_range_data q)) ps)[r := snd (local_range_data (ps ! r))]
        = map (\<lambda>q. snd (local_range_data q)) ps"
    using assms(1) by (simp add: list_eq_iff_nth_eq nth_list_update)
  then show ?thesis
    using assms by (auto simp: exchange_and_fixup_def fixup_on_rank_def)
qed

text \<open>
  Whatever the ranks hold, entry 0 of \<open>first_index\<close> is the broadcast value and entry
  \<open>n_procs\<close> is \<open>global_size\<close> after the fix-up.
\<close>

lemma fold_fill_untouched:
  "j \<notin> set is \<Longrightarrow>
   length (fold (\<lambda>i fi. if fi ! i = 0 then fi[i := fi ! (i - 1)] else fi) is fi) = length fi \<and>
   fold (\<lambda>i fi. if fi ! i = 0 then fi[i := fi ! (i - 1)] else fi) is fi ! j = fi ! j"
  by (induction "is" arbitrary: fi) auto

lemma first_index_endpoints:
  assumes "local_range_fixup debug gsize nprocs pid
             (exchange_endpoints nprocs gsize root_first gathered) lr = Inr (fi, lr')"
    and "0 < nprocs"
  shows "length fi = Suc nprocs \<and> fi ! 0 = root_first \<and> fi ! nprocs = gsize"
proof (cases "0 < gsize")
  case True
  with assms(1) have fi: "fi = forward_fill nprocs (exchange_endpoints nprocs gsize root_first gathered)"
    by (auto simp: local_range_fixup_def Let_def and_then_eq_Inr)
  let ?e = "exchange_endpoints nprocs gsize root_first gathered"
  have "0 \<notin> set [1 ..< nprocs]" "nprocs \<notin> set [1 ..< nprocs]" by simp_all
  from fold_fill_untouched [OF this(1), of ?e] fold_fill_untouched [OF this(2), of ?e]
  have "length fi = length ?e" "fi ! 0 = ?e ! 0" "fi ! nprocs = ?e ! nprocs"
    by (simp_all add: fi forward_fill_def)
  with assms(2) show ?thesis
    by (simp add: nth_exchange_endpoints)
next
  case False
  with assms show ?thesis
    by (auto simp: local_range_fixup_def nth_exchange_endpoints)
qed

text \<open>
  C2. The claim holds no assumption on what the ranks own, and the code lets the vector
  start at a non-zero index: \<open>first_index[0]\<close> is the value that rank 0 broadcasts, its
  own \<open>local_range_data.first\<close>. With rank 0 owning \<open>[2, 5)\<close> and rank 1 owning \<open>[5, 9)\<close>
  of 9 indices, \<open>first_index\<close> is \<open>[2, 5, 9]\<close> after the fix-up, so \<open>first_index[0] = 0\<close>
  fails.
\<close>

theorem first_index_nonzero_start_counterexample:
  "map_sum id local_range_data
     (Partitioner_owned True True \<lparr>index_space_size = 9, elements = {2 ..< 5}\<rparr>
        \<lparr>comm_context = 1, comm_group = [0, 1], comm_rank = 0\<rparr>) = Inr (2, 5) \<and>
   map_sum id local_range_data
     (Partitioner_owned True True \<lparr>index_space_size = 9, elements = {5 ..< 9}\<rparr>
        \<lparr>comm_context = 1, comm_group = [0, 1], comm_rank = 1\<rparr>) = Inr (5, 9) \<and>
   local_range_fixup True 9 2 1 (exchange_endpoints 2 9 2 [5, 9]) (5, 9)
     = Inr ([2, 5, 9], (5, 9)) \<and>
   [2, 5, 9 :: nat] ! 0 \<noteq> 0"
  by (simp add: eval_defs upt_rec)

text \<open>
  C2, amended. When the local ranges of the ranks tile \<open>[0, n)\<close> in rank order with the
  boundaries \<open>bs\<close>, every rank has \<open>n_procs\<close> equal to the number of ranks and
  \<open>global_size = n\<close>, then on every rank \<open>r\<close> the exchange and the fix-up leave
  \<open>first_index = bs\<close>, which is non-decreasing, starts with 0 and ends with \<open>n\<close>; a rank
  whose range was empty ends with \<open>first = second = first_index[r]\<close>, and a non-empty
  rank keeps its range.
\<close>

theorem first_index_of_tiling:
  assumes "2 \<le> length ps"
    and "\<forall>q \<in> set ps. n_procs q = length ps \<and> global_size q = n"
    and "my_pid (ps ! r) = r"
    and "r < length ps"
    and "tiles_with bs (map local_range_data ps) n"
  shows "fixup_on_rank debug ps r =
           Inr (bs, if fst (local_range_data (ps ! r)) = snd (local_range_data (ps ! r))
                    then (bs ! r, bs ! r) else local_range_data (ps ! r)) \<and>
         sorted bs \<and> bs ! 0 = 0 \<and> bs ! length ps = n"
proof -
  let ?rs = "map local_range_data ps"
  have len: "length ?rs = length ps" by simp
  have pos: "0 < length ?rs" using assms(1) by (cases ps) auto
  have r: "r < length ?rs" using assms(4) by simp
  have q: "n_procs (ps ! r) = length ps" "global_size (ps ! r) = n"
    using assms(2,4) by auto
  have m: "map (\<lambda>q. snd (local_range_data q)) ps = map snd ?rs" by simp
  have f0: "fst (local_range_data (ps ! 0)) = fst (?rs ! 0)" using assms(1) by (cases ps) auto
  note t = assms(5)
  have rl: "r < length bs" using tiles_withD(1) [OF t] r by simp
  have lr: "?rs ! r = local_range_data (ps ! r)" using assms(4) by simp
  have rank: "if fst (local_range_data (ps ! r)) < snd (local_range_data (ps ! r))
              then fst (local_range_data (ps ! r)) = bs ! r
              else fst (local_range_data (ps ! r)) = snd (local_range_data (ps ! r)) \<and>
                   (fst (local_range_data (ps ! r)) = 0 \<or> fst (local_range_data (ps ! r)) = bs ! r)"
    using tiles_withD(4,5) [OF t r] lr by auto
  have "fixup_on_rank debug ps r =
           Inr (bs, if fst (local_range_data (ps ! r)) = snd (local_range_data (ps ! r))
                    then (bs ! r, bs ! r) else local_range_data (ps ! r))"
  proof (cases "0 < n")
    case True
    have "forward_fill (length ps)
            (exchange_endpoints (length ps) n (fst (local_range_data (ps ! 0)))
               (map (\<lambda>q. snd (local_range_data q)) ps)) = bs"
      using forward_fill_tiles [OF t pos] by (simp only: len m f0)
    then show ?thesis
      using True rank rl
      by (auto simp: fixup_on_rank_def q assms(3) local_range_fixup_def fix_local_range_def
            prod_eq_iff split: if_splits)
  next
    case False
    then have n: "n = 0" by simp
    from tiles_with_zero [OF t [unfolded n] pos]
    have "exchange_endpoints (length ps) 0 (fst (local_range_data (ps ! 0)))
               (map (\<lambda>q. snd (local_range_data q)) ps) = bs"
      and "local_range_data (ps ! r) = (bs ! r, bs ! r)"
      using r lr by (simp_all only: len m f0)
    then show ?thesis
      by (simp add: fixup_on_rank_def q assms(3) local_range_fixup_def n)
  qed
  with tiles_with_sorted [OF t] tiles_withD(2,3) [OF t] show ?thesis by simp
qed

theorem first_index_of_tiling_witness:
  "\<exists>p0 p1 p2.
     Partitioner_owned True True \<lparr>index_space_size = 8, elements = {}\<rparr>
       \<lparr>comm_context = 1, comm_group = [0, 1, 2], comm_rank = 0\<rparr> = Inr p0 \<and>
     Partitioner_owned True True \<lparr>index_space_size = 8, elements = {0 ..< 8}\<rparr>
       \<lparr>comm_context = 1, comm_group = [0, 1, 2], comm_rank = 1\<rparr> = Inr p1 \<and>
     Partitioner_owned True True \<lparr>index_space_size = 8, elements = {}\<rparr>
       \<lparr>comm_context = 1, comm_group = [0, 1, 2], comm_rank = 2\<rparr> = Inr p2 \<and>
     local_range_data p2 = (0, 0) \<and>
     tiles_with [0, 0, 8, 8] (map local_range_data [p0, p1, p2]) 8 \<and>
     fixup_on_rank True [p0, p1, p2] 2 = Inr ([0, 0, 8, 8], (8, 8)) \<and>
     sorted [0, 0, 8, 8 :: nat]"
proof -
  have "\<exists>p0 p1 p2.
     Partitioner_owned True True \<lparr>index_space_size = 8, elements = {}\<rparr>
       \<lparr>comm_context = 1, comm_group = [0, 1, 2], comm_rank = 0\<rparr> = Inr p0 \<and>
     Partitioner_owned True True \<lparr>index_space_size = 8, elements = {0 ..< 8}\<rparr>
       \<lparr>comm_context = 1, comm_group = [0, 1, 2], comm_rank = 1\<rparr> = Inr p1 \<and>
     Partitioner_owned True True \<lparr>index_space_size = 8, elements = {}\<rparr>
       \<lparr>comm_context = 1, comm_group = [0, 1, 2], comm_rank = 2\<rparr> = Inr p2 \<and>
     (n_procs p0 = 3 \<and> global_size p0 = 8 \<and> local_range_data p0 = (0, 0)) \<and>
     (n_procs p1 = 3 \<and> global_size p1 = 8 \<and> local_range_data p1 = (0, 8)) \<and>
     (n_procs p2 = 3 \<and> global_size p2 = 8 \<and> local_range_data p2 = (0, 0) \<and> my_pid p2 = 2)"
    by (simp add: eval_defs)
  then obtain p0 p1 p2 where
    a: "Partitioner_owned True True \<lparr>index_space_size = 8, elements = {}\<rparr>
       \<lparr>comm_context = 1, comm_group = [0, 1, 2], comm_rank = 0\<rparr> = Inr p0"
       "Partitioner_owned True True \<lparr>index_space_size = 8, elements = {0 ..< 8}\<rparr>
       \<lparr>comm_context = 1, comm_group = [0, 1, 2], comm_rank = 1\<rparr> = Inr p1"
       "Partitioner_owned True True \<lparr>index_space_size = 8, elements = {}\<rparr>
       \<lparr>comm_context = 1, comm_group = [0, 1, 2], comm_rank = 2\<rparr> = Inr p2" and
    f: "n_procs p0 = 3" "global_size p0 = 8" "local_range_data p0 = (0, 0)"
       "n_procs p1 = 3" "global_size p1 = 8" "local_range_data p1 = (0, 8)"
       "n_procs p2 = 3" "global_size p2 = 8" "local_range_data p2 = (0, 0)" "my_pid p2 = 2"
    by blast
  have h1: "2 \<le> length [p0, p1, p2]" by simp
  have h2: "\<forall>q \<in> set [p0, p1, p2]. n_procs q = length [p0, p1, p2] \<and> global_size q = 8"
    using f by simp
  have h3: "my_pid ([p0, p1, p2] ! 2) = 2" using f by simp
  have h4: "2 < length [p0, p1, p2]" by simp
  have h5: "tiles_with [0, 0, 8, 8] (map local_range_data [p0, p1, p2]) 8"
    using f by (simp add: tiles_with_def upt_rec)
  from first_index_of_tiling [OF h1 h2 h3 h4 h5, of True] f
  have "fixup_on_rank True [p0, p1, p2] 2 = Inr ([0, 0, 8, 8], (8, 8)) \<and>
        sorted [0, 0, 8, 8 :: nat]"
    by simp
  with a f h5 show ?thesis by blast
qed

subsection \<open>Local compression of the import indices\<close>

lemma decode_ranges_append [simp]:
  "decode_ranges (xs @ ys) = decode_ranges xs @ decode_ranges ys"
  by (simp add: decode_ranges_def)

lemma decode_ranges_Nil [simp]: "decode_ranges [] = []"
  by (simp add: decode_ranges_def)

lemma decode_ranges_Cons [simp]: "decode_ranges (r # rs) = [fst r ..< snd r] @ decode_ranges rs"
  by (simp add: decode_ranges_def)

lemma separated_ranges_Nil [simp]: "separated_ranges []"
  by (simp add: separated_ranges_def)

lemma separated_ranges_snoc:
  "separated_ranges (xs @ [r]) =
     (separated_ranges xs \<and> fst r < snd r \<and> (\<forall>q \<in> set xs. snd q < fst r))"
  by (auto simp: separated_ranges_def sorted_wrt_append list_all_iff)

lemma compress_chunk_in_bounds:
  "compress_chunk debug lr exp shift iis lst acc = Inr res \<Longrightarrow>
   \<forall>ii \<in> set iis. u32 (shift + ii) < length exp"
proof (induction iis arbitrary: lst acc)
  case Nil
  then show ?case by simp
next
  case (Cons ii iis)
  from Cons.prems have b: "u32 (shift + ii) < length exp"
    by (auto simp: Let_def split: if_splits)
  from Cons.prems b obtain lst' acc' where
    "compress_chunk debug lr exp shift iis lst' acc' = Inr res"
    by (auto simp: Let_def split: if_splits sum.splits)
  from Cons.IH [OF this] b show ?case by simp
qed

lemma compress_chunk_running:
  assumes "compress_chunk debug lr exp shift iis lst (pre @ bl @ [(f, Suc lst)]) = Inr res"
    and "\<forall>ii \<in> set iis. shift + ii < 2 ^ 32"
    and "\<forall>ii \<in> set iis. fst lr \<le> exp ! (shift + ii) \<and> exp ! (shift + ii) < snd lr"
    and "sorted_wrt (<) (map (\<lambda>ii. exp ! (shift + ii)) iis)"
    and "snd lr - fst lr < 2 ^ 32"
    and "separated_ranges (bl @ [(f, Suc lst)])"
    and "Suc lst < 2 ^ 32"
    and "\<forall>ii \<in> set iis. fst lr + lst < exp ! (shift + ii)"
  shows "\<exists>cur. res = pre @ cur \<and> cur \<noteq> [] \<and> separated_ranges cur \<and>
           decode_ranges cur =
             decode_ranges (bl @ [(f, Suc lst)]) @ map (\<lambda>ii. exp ! (shift + ii) - fst lr) iis \<and>
           length cur \<le> Suc (length bl) + length iis"
  using assms
proof (induction iis arbitrary: lst bl f)
  case Nil
  then show ?case by auto
next
  case (Cons ii iis)
  let ?x = "exp ! (shift + ii)"
  let ?new = "?x - fst lr"
  from Cons.prems(2) have i: "u32 (shift + ii) = shift + ii" by (simp add: u32_id)
  from compress_chunk_in_bounds [OF Cons.prems(1)] i have b: "shift + ii < length exp" by simp
  from Cons.prems(3) have r: "fst lr \<le> ?x" "?x < snd lr" by auto
  with Cons.prems(5) have n32: "Suc ?new < 2 ^ 32" by linarith
  have p: "(2::nat) ^ 32 < 2 ^ 64" by simp
  from n32 p have n64: "?new < 2 ^ 64" "Suc ?new < 2 ^ 64" by linarith+
  from r n64 have dm: "dof_minus ?x (fst lr) = ?new" by (simp add: dof_minus_id)
  from Cons.prems(7) have l64: "dof (lst + 1) = Suc lst"
    by (simp add: dof_def)
  from n32 have ni: "?new < invalid_unsigned_int" by (simp add: invalid_unsigned_int_def)
  from Cons.prems(8) have gt: "lst < ?new" by auto
  from Cons.prems(4) have rest_gt: "\<forall>jj \<in> set iis. fst lr + ?new < exp ! (shift + jj)"
    using r by auto
  from Cons.prems(4) have asc': "sorted_wrt (<) (map (\<lambda>ii. exp ! (shift + ii)) iis)" by simp
  show ?case
  proof (cases "?new = Suc lst")
    case True
    have u: "u32 (Suc (Suc lst)) = Suc (Suc lst)" using n32 True by (simp add: u32_id)
    from Cons.prems(1) i b r dm l64 ni True u
    have run: "compress_chunk debug lr exp shift iis (Suc lst) (pre @ bl @ [(f, Suc (Suc lst))])
               = Inr res"
      by (simp add: Let_def extend_back_def butlast_append)
    have sep: "separated_ranges (bl @ [(f, Suc (Suc lst))])"
      using Cons.prems(6) by (auto simp: separated_ranges_snoc)
    have fl: "f \<le> Suc lst" using Cons.prems(6) by (auto simp: separated_ranges_snoc)
    from Cons.IH [OF run _ _ asc' Cons.prems(5) sep] Cons.prems(2,3) n32 True rest_gt
    obtain cur where c: "res = pre @ cur" "cur \<noteq> []" "separated_ranges cur"
      "decode_ranges cur = decode_ranges (bl @ [(f, Suc (Suc lst))]) @
         map (\<lambda>ii. exp ! (shift + ii) - fst lr) iis"
      "length cur \<le> Suc (length bl) + length iis"
      by auto
    from fl have "[f ..< Suc (Suc lst)] = [f ..< Suc lst] @ [Suc lst]" by simp
    with c True show ?thesis by auto
  next
    case False
    with gt have far: "Suc lst < ?new" by simp
    have u: "u32 ?new = ?new" "u32 (dof (?new + 1)) = Suc ?new"
      using n32 n64 by (simp_all add: u32_id dof_id)
    from Cons.prems(1) i b r dm l64 ni False u
    have run: "compress_chunk debug lr exp shift iis ?new
                 (pre @ (bl @ [(f, Suc lst)]) @ [(?new, Suc ?new)]) = Inr res"
      by (simp add: Let_def)
    have sep: "separated_ranges ((bl @ [(f, Suc lst)]) @ [(?new, Suc ?new)])"
      using Cons.prems(6) far
      by (subst separated_ranges_snoc) (auto simp: separated_ranges_snoc)
    from Cons.IH [OF run _ _ asc' Cons.prems(5) sep] Cons.prems(2,3) n32 rest_gt
    obtain cur where c: "res = pre @ cur" "cur \<noteq> []" "separated_ranges cur"
      "decode_ranges cur = decode_ranges ((bl @ [(f, Suc lst)]) @ [(?new, Suc ?new)]) @
         map (\<lambda>ii. exp ! (shift + ii) - fst lr) iis"
      "length cur \<le> Suc (length (bl @ [(f, Suc lst)])) + length iis"
      by auto
    with Cons.prems(6) show ?thesis by (auto simp: separated_ranges_snoc)
  qed
qed

lemma compress_chunk_start:
  assumes "compress_chunk debug lr exp shift iis (invalid_dof_index - 1) pre = Inr res"
    and "\<forall>ii \<in> set iis. shift + ii < 2 ^ 32"
    and "\<forall>ii \<in> set iis. fst lr \<le> exp ! (shift + ii) \<and> exp ! (shift + ii) < snd lr"
    and "sorted_wrt (<) (map (\<lambda>ii. exp ! (shift + ii)) iis)"
    and "snd lr - fst lr < 2 ^ 32"
  shows "\<exists>cur. res = pre @ cur \<and> separated_ranges cur \<and>
           decode_ranges cur = map (\<lambda>ii. exp ! (shift + ii) - fst lr) iis \<and>
           length cur \<le> length iis"
proof (cases iis)
  case Nil
  with assms(1) show ?thesis by simp
next
  case (Cons ii rest)
  let ?x = "exp ! (shift + ii)"
  let ?new = "?x - fst lr"
  from assms(2) Cons have i: "u32 (shift + ii) = shift + ii" by (simp add: u32_id)
  from compress_chunk_in_bounds [OF assms(1)] i Cons have b: "shift + ii < length exp" by simp
  from assms(3) Cons have r: "fst lr \<le> ?x" "?x < snd lr" by auto
  with assms(5) have n32: "Suc ?new < 2 ^ 32" by linarith
  have p: "(2::nat) ^ 32 < 2 ^ 64" by simp
  from n32 p have n64: "?new < 2 ^ 64" "Suc ?new < 2 ^ 64" by linarith+
  from r n64 have dm: "dof_minus ?x (fst lr) = ?new" by (simp add: dof_minus_id)
  have l64: "dof (Suc (invalid_dof_index - Suc 0)) = 2 ^ 64 - 1"
    by (simp add: dof_def invalid_dof_index_def)
  from n64 have ne: "?new \<noteq> 2 ^ 64 - 1" by linarith
  from n32 have ni: "?new < invalid_unsigned_int" by (simp add: invalid_unsigned_int_def)
  have u: "u32 ?new = ?new" "u32 (dof (?new + 1)) = Suc ?new"
    using n32 n64 by (simp_all add: u32_id dof_id)
  from assms(1) Cons i b r dm ni u ne
  have run: "compress_chunk debug lr exp shift rest ?new (pre @ [] @ [(?new, Suc ?new)]) = Inr res"
    by (simp add: Let_def l64)
  have sep: "separated_ranges ([] @ [(?new, Suc ?new)])"
    by (simp add: separated_ranges_def)
  have asc: "sorted_wrt (<) (map (\<lambda>ii. exp ! (shift + ii)) rest)"
    using assms(4) Cons by simp
  have gt: "\<forall>jj \<in> set rest. fst lr + ?new < exp ! (shift + jj)"
    using assms(4) Cons r by auto
  from compress_chunk_running [OF run _ _ asc assms(5) sep n32 gt] assms(2,3) Cons
  obtain cur where "res = pre @ cur" "separated_ranges cur"
    "decode_ranges cur = decode_ranges ([] @ [(?new, Suc ?new)]) @
        map (\<lambda>ii. exp ! (shift + ii) - fst lr) rest"
    "length cur \<le> Suc (length ([] :: (nat \<times> nat) list)) + length rest"
    by auto
  with Cons show ?thesis by auto
qed

lemma take_drop_map_nth:
  "s + n \<le> length xs \<Longrightarrow> take n (drop s xs) = map (\<lambda>i. xs ! (s + i)) [0 ..< n]"
  by (rule nth_equalityI) auto

lemma compress_import_indices_chunks:
  assumes "compress_import_indices debug lr exp targets p (shift, acc, chunks)
             = Inr (shift', out, chunks')"
    and "chunks ! p = length acc"
    and "p + length targets < length chunks"
    and "length acc + sum_list (map snd targets) < 2 ^ 32"
    and "shift + sum_list (map snd targets) < 2 ^ 32"
    and "snd lr - fst lr < 2 ^ 32"
    and "\<forall>c < length targets.
           sorted_wrt (<) (take (snd (targets ! c))
                             (drop (shift + sum_list (map snd (take c targets))) exp)) \<and>
           (\<forall>x \<in> set (take (snd (targets ! c))
                         (drop (shift + sum_list (map snd (take c targets))) exp)).
              fst lr \<le> x \<and> x < snd lr)"
  shows "length chunks' = length chunks \<and> (\<forall>j \<le> p. chunks' ! j = chunks ! j) \<and>
         (\<exists>more. out = acc @ more) \<and>
         (\<forall>c < length targets.
            chunks' ! (p + c) \<le> chunks' ! Suc (p + c) \<and>
            separated_ranges
              (take (chunks' ! Suc (p + c) - chunks' ! (p + c)) (drop (chunks' ! (p + c)) out)) \<and>
            decode_ranges
              (take (chunks' ! Suc (p + c) - chunks' ! (p + c)) (drop (chunks' ! (p + c)) out))
            = map (\<lambda>x. x - fst lr)
                (take (snd (targets ! c))
                   (drop (shift + sum_list (map snd (take c targets))) exp)))"
  using assms
proof (induction targets arbitrary: p shift acc chunks)
  case Nil
  then show ?case by auto
next
  case (Cons t ts)
  let ?n = "snd t"
  from Cons.prems(1) obtain acc' where
    chunk: "compress_chunk debug lr exp shift [0 ..< ?n] (invalid_dof_index - 1) acc = Inr acc'"
    and rest: "compress_import_indices debug lr exp ts (Suc p)
                 (u32 (shift + ?n), acc', chunks[Suc p := u32 (length acc')])
               = Inr (shift', out, chunks')"
    by (auto split: sum.splits)
  have nowrap: "\<forall>ii \<in> set [0 ..< ?n]. shift + ii < 2 ^ 32"
    using Cons.prems(5) by auto
  from compress_chunk_in_bounds [OF chunk] nowrap
  have "\<forall>ii < ?n. shift + ii < length exp" by (auto simp: u32_id)
  then have fits: "0 < ?n \<Longrightarrow> shift + ?n \<le> length exp"
    by (cases ?n) (auto simp: less_Suc_eq_le Suc_le_eq)
  have slice: "take ?n (drop shift exp) = map (\<lambda>ii. exp ! (shift + ii)) [0 ..< ?n]"
  proof (cases "0 < ?n")
    case True
    from take_drop_map_nth [OF fits [OF True]] show ?thesis .
  next
    case False
    then show ?thesis by simp
  qed
  from Cons.prems(7) [rule_format, of 0]
  have h0: "sorted_wrt (<) (take ?n (drop shift exp))"
    "\<forall>x \<in> set (take ?n (drop shift exp)). fst lr \<le> x \<and> x < snd lr"
    by simp_all
  have asc: "sorted_wrt (<) (map (\<lambda>ii. exp ! (shift + ii)) [0 ..< ?n])"
    using h0(1) by (simp only: slice)
  have inr: "\<forall>ii \<in> set [0 ..< ?n]. fst lr \<le> exp ! (shift + ii) \<and> exp ! (shift + ii) < snd lr"
    using h0(2) by (simp only: slice) auto
  from compress_chunk_start [OF chunk nowrap inr asc Cons.prems(6)]
  obtain enc where enc: "acc' = acc @ enc" "separated_ranges enc"
    "decode_ranges enc = map (\<lambda>ii. exp ! (shift + ii) - fst lr) [0 ..< ?n]"
    "length enc \<le> ?n"
    by auto
  have dec0: "decode_ranges enc = map (\<lambda>x. x - fst lr) (take ?n (drop shift exp))"
    using enc(3) by (simp only: slice) (simp add: comp_def)
  have u1: "u32 (shift + ?n) = shift + ?n" using Cons.prems(5) by (simp add: u32_id)
  have u2: "u32 (length acc') = length acc'"
    using Cons.prems(4) enc(1,4) by (simp add: u32_id)
  note rest' = rest [unfolded u1 u2]
  have a1: "(chunks[Suc p := length acc']) ! Suc p = length acc'"
    using Cons.prems(3) by simp
  have a2: "Suc p + length ts < length (chunks[Suc p := length acc'])"
    using Cons.prems(3) by simp
  have a3: "length acc' + sum_list (map snd ts) < 2 ^ 32"
    using Cons.prems(4) enc(1,4) by simp
  have a4: "shift + ?n + sum_list (map snd ts) < 2 ^ 32"
    using Cons.prems(5) by simp
  have a5: "\<forall>c < length ts.
           sorted_wrt (<) (take (snd (ts ! c))
                             (drop (shift + ?n + sum_list (map snd (take c ts))) exp)) \<and>
           (\<forall>x \<in> set (take (snd (ts ! c))
                         (drop (shift + ?n + sum_list (map snd (take c ts))) exp)).
              fst lr \<le> x \<and> x < snd lr)"
  proof (intro allI impI)
    fix c assume "c < length ts"
    with Cons.prems(7) [rule_format, of "Suc c"]
    show "sorted_wrt (<) (take (snd (ts ! c))
                             (drop (shift + ?n + sum_list (map snd (take c ts))) exp)) \<and>
           (\<forall>x \<in> set (take (snd (ts ! c))
                         (drop (shift + ?n + sum_list (map snd (take c ts))) exp)).
              fst lr \<le> x \<and> x < snd lr)"
      by (simp add: add.assoc)
  qed
  from Cons.IH [OF rest' a1 a2 a3 a4 Cons.prems(6) a5]
  have IH: "length chunks' = length (chunks[Suc p := length acc'])"
    "\<forall>j \<le> Suc p. chunks' ! j = (chunks[Suc p := length acc']) ! j"
    "\<exists>more. out = acc' @ more"
    "\<forall>c < length ts.
            chunks' ! (Suc p + c) \<le> chunks' ! Suc (Suc p + c) \<and>
            separated_ranges
              (take (chunks' ! Suc (Suc p + c) - chunks' ! (Suc p + c))
                 (drop (chunks' ! (Suc p + c)) out)) \<and>
            decode_ranges
              (take (chunks' ! Suc (Suc p + c) - chunks' ! (Suc p + c))
                 (drop (chunks' ! (Suc p + c)) out))
            = map (\<lambda>x. x - fst lr)
                (take (snd (ts ! c))
                   (drop (shift + ?n + sum_list (map snd (take c ts))) exp))"
    by blast+
  from IH(3) obtain more where more: "out = acc' @ more" by blast
  have cp: "chunks' ! p = length acc"
    using IH(2) [rule_format, of p] Cons.prems(2) by simp
  have cs: "chunks' ! Suc p = length acc'"
    using IH(2) [rule_format, of "Suc p"] a1 by simp
  have first: "take (chunks' ! Suc p - chunks' ! p) (drop (chunks' ! p) out) = enc"
    by (simp add: cp cs more enc(1))
  have c1: "length chunks' = length chunks" using IH(1) by simp
  have c2: "\<forall>j \<le> p. chunks' ! j = chunks ! j"
    using IH(2) by (auto simp: nth_list_update)
  have c3: "\<exists>more. out = acc @ more" using more enc(1) by simp
  have c4: "chunks' ! (p + c) \<le> chunks' ! Suc (p + c) \<and>
            separated_ranges
              (take (chunks' ! Suc (p + c) - chunks' ! (p + c)) (drop (chunks' ! (p + c)) out)) \<and>
            decode_ranges
              (take (chunks' ! Suc (p + c) - chunks' ! (p + c)) (drop (chunks' ! (p + c)) out))
            = map (\<lambda>x. x - fst lr)
                (take (snd ((t # ts) ! c))
                   (drop (shift + sum_list (map snd (take c (t # ts)))) exp))"
    if c: "c < length (t # ts)" for c
  proof (cases c)
    case 0
    with first enc(2) dec0 cp cs enc(1) show ?thesis by simp
  next
    case (Suc c')
    with c have "c' < length ts" by simp
    with IH(4) [rule_format, of c'] Suc show ?thesis by (simp add: add.assoc)
  qed
  from c1 c2 c3 c4 show ?case by blast
qed

lemma length_resize [simp]: "length (resize xs n d) = n"
  by (simp add: resize_def)

text \<open>
  The capacity of the local range is an invariant of the class: \<open>set_owned_indices\<close>
  establishes it for a non-empty owned set and \<open>set_ghost_indices\<close> keeps it.
\<close>

lemma set_owned_indices_local_size:
  assumes "set_owned_indices debug job p owned = Inr p'" and "0 < n_elements owned"
  shows "snd (local_range_data p') - fst (local_range_data p') < 2 ^ 32 - 1"
proof -
  let ?a = "nth_index_in_set (compress owned) 0"
  let ?b = "dof (?a + n_elements (compress owned))"
  from assms have lr: "local_range_data p' = (?a, ?b)"
    and ok: "dof_minus ?b ?a < unsigned_int_max"
    by (auto simp: set_owned_indices_def Let_def compress_def split: if_splits)
  show ?thesis
  proof (cases "?a \<le> ?b")
    case True
    have "?b < 2 ^ 64" by (simp add: dof_def)
    then have "?b - ?a < 2 ^ 64" by linarith
    from dof_minus_id [OF True this] ok lr show ?thesis
      by (simp add: unsigned_int_max_def)
  next
    case False
    with lr show ?thesis by simp
  qed
qed

lemma local_range_fixup_range:
  assumes "local_range_fixup debug gsize nprocs pid fi lr = Inr (fi', lr')"
  shows "lr' = lr \<or> fst lr' = snd lr'"
  using assms
  by (auto simp: local_range_fixup_def fix_local_range_def Let_def and_then_eq_Inr
        split: if_splits)

lemma set_ghost_indices_local_size:
  assumes "set_ghost_indices debug env p g larger = Inr p'"
    and "snd (local_range_data p) - fst (local_range_data p) < 2 ^ 32 - 1"
  shows "snd (local_range_data p') - fst (local_range_data p') < 2 ^ 32 - 1"
proof (cases "n_procs p < 2")
  case True
  from set_ghost_indices_Inr [OF assms(1)] True obtain p1 where
    "normalise_ghosts debug env p g = Inr p1" "p' = p1" by auto
  with normalise_ghosts_Inr [of debug env p g p1] assms(2) show ?thesis by simp
next
  case False
  then have n: "2 \<le> n_procs p" by simp
  from set_ghost_indices_result [OF assms(1) n] obtain p1 p2 where
    2: "communication_pattern debug env p1 = Inr p2" and
    e: "local_range_data p' = local_range_data p2" "local_range_data p1 = local_range_data p"
    by blast
  from communication_pattern_result [OF 2] obtain fi where
    "local_range_fixup debug (global_size p1) (n_procs p1) (my_pid p1)
            (exchange_endpoints (n_procs p1) (global_size p1)
               (if my_pid p1 = 0 then fst (local_range_data p1) else bcast_first_index env)
               ((allgather_second env)[my_pid p1 := snd (local_range_data p1)]))
            (local_range_data p1) = Inr (fi, local_range_data p2)"
    by blast
  from local_range_fixup_range [OF this] e assms(2) show ?thesis by auto
qed

text \<open>
  C4. On at least two processes, let a call of \<open>set_ghost_indices\<close> return. Assume that
  in every chunk the received indices are strictly ascending and lie in the local range,
  that the local range has at most \<open>2^32 - 1\<close> indices and that the import counts add up
  to less than \<open>2^32\<close> (the capacities of the \<^verbatim>\<open>unsigned int\<close> members). Then the ranges
  stored for every chunk \<open>c\<close> are non-empty, strictly ascending and not adjacent, and
  decoding them gives exactly the local offsets of the indices received in chunk \<open>c\<close>,
  in order; so no range reaches into another chunk.
\<close>

theorem import_chunks_run_length_encoded:
  assumes "set_ghost_indices debug env p ghost_indices_in larger_ghost_index_set = Inr p'"
    and "2 \<le> n_procs p"
    and "snd (local_range_data p') - fst (local_range_data p') < 2 ^ 32"
    and "sum_list (map snd (import_targets_data p')) < 2 ^ 32"
    and "\<forall>c < length (import_targets_data p').
           sorted_wrt (<)
             (received_chunk (expanded_import_indices env) (import_targets_data p') c) \<and>
           (\<forall>x \<in> set (received_chunk (expanded_import_indices env) (import_targets_data p') c).
              fst (local_range_data p') \<le> x \<and> x < snd (local_range_data p'))"
    and "c < length (import_targets_data p')"
  shows "separated_ranges
           (chunk_ranges (import_indices_data p') (import_indices_chunks_by_rank_data p') c) \<and>
         decode_ranges
           (chunk_ranges (import_indices_data p') (import_indices_chunks_by_rank_data p') c)
         = map (\<lambda>x. x - fst (local_range_data p'))
             (received_chunk (expanded_import_indices env) (import_targets_data p') c) \<and>
         length (import_indices_chunks_by_rank_data p') = Suc (length (import_targets_data p'))"
proof -
  from set_ghost_indices_result [OF assms(1,2)] obtain p1 p2 where
    2: "communication_pattern debug env p1 = Inr p2" and
    e: "import_targets_data p' = import_targets_data p2"
       "import_indices_data p' = import_indices_data p2"
       "import_indices_chunks_by_rank_data p' = import_indices_chunks_by_rank_data p2"
       "local_range_data p' = local_range_data p2"
    by blast
  from communication_pattern_result [OF 2] obtain sh where
    "compress_import_indices debug (local_range_data p2) (expanded_import_indices env)
            (import_targets_data p2) 0
            (0, [],
             (resize (import_indices_chunks_by_rank_data p1)
                (length (import_targets_data p2) + 1) 0)[0 := 0])
            = Inr (sh, import_indices_data p2, import_indices_chunks_by_rank_data p2)"
    by blast
  then have run:
    "compress_import_indices debug (local_range_data p') (expanded_import_indices env)
            (import_targets_data p') 0
            (0, [],
             (resize (import_indices_chunks_by_rank_data p1)
                (length (import_targets_data p') + 1) 0)[0 := 0])
            = Inr (sh, import_indices_data p', import_indices_chunks_by_rank_data p')"
    by (simp only: e)
  have a1: "((resize (import_indices_chunks_by_rank_data p1)
                (length (import_targets_data p') + 1) 0)[0 := 0]) ! 0 = length ([] :: (nat \<times> nat) list)"
    by simp
  have a2: "0 + length (import_targets_data p') <
              length ((resize (import_indices_chunks_by_rank_data p1)
                (length (import_targets_data p') + 1) 0)[0 := 0])"
    by simp
  have a3: "length ([] :: (nat \<times> nat) list) + sum_list (map snd (import_targets_data p')) < 2 ^ 32"
    using assms(4) by simp
  have a4: "0 + sum_list (map snd (import_targets_data p')) < 2 ^ 32"
    using assms(4) by simp
  have a5: "\<forall>c < length (import_targets_data p').
           sorted_wrt (<) (take (snd (import_targets_data p' ! c))
              (drop (0 + sum_list (map snd (take c (import_targets_data p'))))
                 (expanded_import_indices env))) \<and>
           (\<forall>x \<in> set (take (snd (import_targets_data p' ! c))
              (drop (0 + sum_list (map snd (take c (import_targets_data p'))))
                 (expanded_import_indices env))).
              fst (local_range_data p') \<le> x \<and> x < snd (local_range_data p'))"
    using assms(5) by (simp add: received_chunk_def)
  from compress_import_indices_chunks [OF run a1 a2 a3 a4 assms(3) a5] assms(6)
  show ?thesis by (simp add: chunk_ranges_def received_chunk_def)
qed

theorem import_chunks_run_length_encoded_witness:
  "\<exists>p p'.
     Partitioner_owned True True \<lparr>index_space_size = 150, elements = {50 ..< 100}\<rparr>
       \<lparr>comm_context = 1, comm_group = [0, 1, 2], comm_rank = 1\<rparr> = Inr p \<and>
     set_ghost_indices True
       \<lparr>n_ghost_on_other_ranks = 4, bcast_first_index = 0, allgather_second = [50, 100, 150],
        index_owner = [], receive_buffer = [2, 0, 2],
        expanded_import_indices = [60, 61, 62, 63]\<rparr>
       p \<lparr>index_space_size = 150, elements = {}\<rparr> IndexSet_empty = Inr p' \<and>
     import_targets_data p' = [(0, 2), (2, 2)] \<and>
     import_indices_data p' = [(10, 12), (12, 14)] \<and>
     import_indices_chunks_by_rank_data p' = [0, 1, 2] \<and>
     chunk_ranges (import_indices_data p') (import_indices_chunks_by_rank_data p') 1
       = [(12, 14)] \<and>
     separated_ranges
       (chunk_ranges (import_indices_data p') (import_indices_chunks_by_rank_data p') 1) \<and>
     decode_ranges
       (chunk_ranges (import_indices_data p') (import_indices_chunks_by_rank_data p') 1)
       = [12, 13]"
proof -
  let ?env = "\<lparr>n_ghost_on_other_ranks = 4, bcast_first_index = 0,
        allgather_second = [50, 100, 150], index_owner = [], receive_buffer = [2, 0, 2],
        expanded_import_indices = [60, 61, 62, 63]\<rparr>"
  have "\<exists>p p'.
     Partitioner_owned True True \<lparr>index_space_size = 150, elements = {50 ..< 100}\<rparr>
       \<lparr>comm_context = 1, comm_group = [0, 1, 2], comm_rank = 1\<rparr> = Inr p \<and>
     set_ghost_indices True ?env p \<lparr>index_space_size = 150, elements = {}\<rparr> IndexSet_empty
       = Inr p' \<and>
     n_procs p = 3 \<and>
     local_range_data p' = (50, 100) \<and>
     import_targets_data p' = [(0, 2), (2, 2)] \<and>
     import_indices_data p' = [(10, 12), (12, 14)] \<and>
     import_indices_chunks_by_rank_data p' = [0, 1, 2]"
    by (simp add: eval_defs upt_rec)
  then obtain p p' where
    a: "Partitioner_owned True True \<lparr>index_space_size = 150, elements = {50 ..< 100}\<rparr>
       \<lparr>comm_context = 1, comm_group = [0, 1, 2], comm_rank = 1\<rparr> = Inr p" and
    b: "set_ghost_indices True ?env p \<lparr>index_space_size = 150, elements = {}\<rparr>
          IndexSet_empty = Inr p'" and
    n: "n_procs p = 3" and
    l: "local_range_data p' = (50, 100)" and
    t: "import_targets_data p' = [(0, 2), (2, 2)]" and
    i: "import_indices_data p' = [(10, 12), (12, 14)]" and
    k: "import_indices_chunks_by_rank_data p' = [0, 1, 2]"
    by blast
  have h2: "2 \<le> n_procs p" using n by simp
  have h3: "snd (local_range_data p') - fst (local_range_data p') < 2 ^ 32" using l by simp
  have h4: "sum_list (map snd (import_targets_data p')) < 2 ^ 32" using t by simp
  have h5: "\<forall>c < length (import_targets_data p').
           sorted_wrt (<)
             (received_chunk (expanded_import_indices ?env) (import_targets_data p') c) \<and>
           (\<forall>x \<in> set (received_chunk (expanded_import_indices ?env) (import_targets_data p') c).
              fst (local_range_data p') \<le> x \<and> x < snd (local_range_data p'))"
    using l t by (auto simp: received_chunk_def less_Suc_eq numeral_2_eq_2)
  have h6: "1 < length (import_targets_data p')" using t by simp
  have r: "received_chunk (expanded_import_indices ?env) (import_targets_data p') 1 = [62, 63]"
    using t by (simp add: received_chunk_def)
  have c: "chunk_ranges (import_indices_data p') (import_indices_chunks_by_rank_data p') 1
       = [(12, 14)]"
    using i k by (simp add: chunk_ranges_def)
  from import_chunks_run_length_encoded [OF b h2 h3 h4 h5 h6]
  have "separated_ranges
       (chunk_ranges (import_indices_data p') (import_indices_chunks_by_rank_data p') 1) \<and>
     decode_ranges
       (chunk_ranges (import_indices_data p') (import_indices_chunks_by_rank_data p') 1)
       = [12, 13]"
    by (simp only: r l fst_conv) simp
  with a b t i k c show ?thesis by blast
qed

end
